theory Spec2Isabelle
  imports Main
begin

section \<open>Data model of the streaming core (source.c)\<close>

text \<open>
  The structures \<open>refbuf_t\<close>, \<open>client_t\<close> and \<open>source_t\<close> are declared in headers
  that are not part of the sources at hand (refbuf.h, client.h, source.h); the records
  below list the fields that source.c reads and writes.  Pointers to refbufs are
  addresses into an explicit memory, so that the aliasing between the queue head, the
  tail, the burst point and the listeners' positions is kept.  Integer fields are
  unbounded integers; where the conversion rules of C decide the control flow (the burst
  walk of \<open>locate_start_on_queue\<close>, the \<open>int lag\<close> of \<open>send_listener\<close>, the counters
  of listeners and the limits of a mount) the wrap-around is written out, for \<open>int\<close> 32
  and \<open>long\<close>, \<open>size_t\<close> and \<open>off_t\<close> 64 bits wide.  Bit sets of flags are sets of named
  flags.
\<close>

type_synonym addr = nat

datatype refbuf_flag = SOURCE_BLOCK_SYNC | SOURCE_QUEUE_BLOCK | SOURCE_BLOCK_RELEASE

record refbuf_t =
  rb_len :: int
  rb_flags :: "refbuf_flag set"
  rb_next :: "addr option"
  rb_count :: int

type_synonym memory = "addr \<Rightarrow> refbuf_t option"

datatype level = ERROR | WARN | INFO | DEBUG

datatype event =
    Log level string
  | Run_script string string
  | Auth_stream_end string
  | Stats_event_inc string string

text \<open>
  The part of the process state that is not owned by one source: the refbuf memory, the
  next address the allocator hands out, and the log and hook calls made so far.
\<close>

record global =
  mem :: memory
  brk :: addr
  trace :: "event list"

text \<open>
  Ways in which a call does not return to its caller: \<open>abort()\<close>, with the log as it
  stands when the process ends, and the use of a pointer that refers to no refbuf.
\<close>

datatype fault = Process_abort "event list" | Bad_pointer

definition logmsg :: "level \<Rightarrow> string \<Rightarrow> global \<Rightarrow> global" where
  "logmsg l m g = g\<lparr>trace := trace g @ [Log l m]\<rparr>"

text \<open>
  Modelled from the spec: \<open>refbuf_addref\<close> and \<open>refbuf_release\<close> of refbuf.c, which
  is not among the sources.  A RefBuf is "released by every holder; destroyed when count
  reaches zero".
\<close>

definition refbuf_addref :: "addr \<Rightarrow> global \<Rightarrow> global" where
  "refbuf_addref a g =
     (case mem g a of
        None \<Rightarrow> g
      | Some b \<Rightarrow> g\<lparr>mem := (mem g)(a \<mapsto> b\<lparr>rb_count := rb_count b + 1\<rparr>)\<rparr>)"

definition refbuf_release :: "addr \<Rightarrow> global \<Rightarrow> global" where
  "refbuf_release a g =
     (case mem g a of
        None \<Rightarrow> g
      | Some b \<Rightarrow>
          if rb_count b - 1 = 0 then g\<lparr>mem := (mem g)(a := None)\<rparr>
          else g\<lparr>mem := (mem g)(a \<mapsto> b\<lparr>rb_count := rb_count b - 1\<rparr>)\<rparr>)"

datatype source_flag =
    SOURCE_RUNNING | SOURCE_ON_DEMAND | SOURCE_TERMINATING | SOURCE_PAUSE_LISTENERS
  | SOURCE_LISTENERS_SYNC | SOURCE_TIMEOUT | SOURCE_SHOUTCAST_COMPAT

datatype client_flag =
    CLIENT_ACTIVE | CLIENT_AUTHENTICATED | CLIENT_IS_SLAVE | CLIENT_HAS_INTRO_CONTENT
  | CLIENT_HAS_MOVED | CLIENT_IN_FSERVE | CLIENT_HIJACKER

datatype client_functions =
    source_client_ops | source_client_halt_ops | source_client_http_ops
  | listener_client_ops | listener_pause_ops | listener_wait_ops

datatype check_buffer_fn =
    http_source_listener | http_source_intro | http_source_introfile
  | source_queue_advance | write_buf_to_client

text \<open>
  \<open>con_*\<close> are the fields of \<open>client->connection\<close>; \<open>burst_param\<close> and
  \<open>initial_burst\<close> are \<open>atol\<close> of the query parameter "burst" and of the header
  "initial-burst" of \<open>client->parser\<close>, when present.
\<close>

record client_t =
  con_id :: nat
  con_error :: int
  con_sent_bytes :: int
  con_discon_time :: int
  con_time :: int
  cl_flags :: "client_flag set"
  refbuf :: "addr option"
  pos :: int
  queue_pos :: int
  intro_offset :: int
  check_buffer :: check_buffer_fn
  ops :: client_functions
  schedule_ms :: int
  timer_start :: int
  username :: "string option"
  shared_data :: "string option"
  cl_mount :: "string option"
  respcode :: int
  burst_param :: "int option"
  initial_burst :: "int option"

datatype fs_flag = FS_FALLBACK

record fbinfo =
  fb_flags :: "fs_flag set"
  fb_mount :: "string option"
  fb_limit :: int
  fb_type :: nat

record source_t =
  mount :: string
  flags :: "source_flag set"
  listener_send_trigger :: int
  client :: client_t
  client_stats_update :: int
  worker_balance_recheck :: int
  format_type :: nat
  format_sent_bytes :: int
  clients :: "client_t list"
  dumpfile :: bool
  fallback :: fbinfo
  skip_duration :: int
  limit_rate :: int
  incoming_rate :: int
  wait_time :: int
  last_read :: int
  termination_count :: int
  peak_listeners :: int
  listeners :: int
  prev_listeners :: int
  stats_interval :: int
  default_burst_size :: int
  min_queue_offset :: int
  min_queue_size :: int
  queue_size :: int
  queue_size_limit :: int
  timeout :: int
  bytes_sent_since_update :: int
  bytes_read_since_update :: int
  stream_data :: "addr option"
  stream_data_tail :: "addr option"
  min_queue_point :: "addr option"

record worker_t =
  time_ms :: int
  current_time :: int

section \<open>source\_read: appending to the queue\<close>

text \<open>
  The loop of source.c, lines 527 to 543, that moves the starting point for new
  listeners.  \<open>refbuf\<close> is the block just appended.  \<open>None\<close> stands for a loop that
  does not return.
\<close>

partial_function (option) move_burst_point ::
  "addr \<Rightarrow> global \<Rightarrow> source_t \<Rightarrow> (fault + global \<times> source_t) option"
where
  "move_burst_point r g s =
       (if min_queue_offset s > min_queue_size s then
          (case min_queue_point s of
             None \<Rightarrow>
               Some (Inl (Process_abort (trace (logmsg ERROR ''weird state of min_queue point'' g))))
           | Some a \<Rightarrow>
               (case mem g a of
                  None \<Rightarrow> Some (Inl Bad_pointer)
                | Some b \<Rightarrow>
                    (case rb_next b of
                       Some n \<Rightarrow>
                         move_burst_point r
                           (refbuf_release a g)
                           (s\<lparr>min_queue_offset := min_queue_offset s - rb_len b,
                              min_queue_point := Some n\<rparr>)
                     | None \<Rightarrow>
                         if a \<noteq> r
                         then Some (Inl (Process_abort
                                (trace (logmsg ERROR ''weird state of min_queue point'' g))))
                         else Some (Inr (g, s)))))
        else Some (Inr (g, s)))"

text \<open>
  Lines 496 to 548: what \<open>source_read\<close> does with a block \<open>r\<close> that \<open>get_buffer\<close>
  returned.  Writing the block to the dump file is outside the model.
\<close>

definition link_tail :: "addr \<Rightarrow> global \<times> source_t \<Rightarrow> fault + global \<times> source_t" where
  "link_tail r gs =
     (case gs of (g, s) \<Rightarrow>
        (case stream_data_tail s of
           None \<Rightarrow> Inr (g, s)
         | Some t \<Rightarrow>
             (let odd = min_queue_offset s > min_queue_size s;
                  g1 = (if odd then logmsg ERROR ''queue oddity, stream %s, %d, %d'' g else g);
                  s1 = (if odd then s\<lparr>flags := flags s - {SOURCE_RUNNING}\<rparr> else s)
              in case mem g1 t of
                   None \<Rightarrow> Inl Bad_pointer
                 | Some tb \<Rightarrow>
                     Inr (refbuf_release t
                            (g1\<lparr>mem := (mem g1)(t \<mapsto> tb\<lparr>rb_next := Some r\<rparr>)\<rparr>), s1))))"

definition queue_append ::
  "addr \<Rightarrow> global \<times> source_t \<Rightarrow> (fault + global \<times> source_t) option"
where
  "queue_append r gs =
     (case gs of (g, s) \<Rightarrow>
        (case mem g r of
           None \<Rightarrow> Some (Inl Bad_pointer)
         | Some b \<Rightarrow>
             (let s1 = s\<lparr>bytes_read_since_update := bytes_read_since_update s + rb_len b\<rparr>;
                  g1 = refbuf_addref r
                         (g\<lparr>mem := (mem g)(r \<mapsto> b\<lparr>rb_flags := rb_flags b \<union> {SOURCE_QUEUE_BLOCK}\<rparr>)\<rparr>);
                  s2 = (if stream_data s1 = None
                        then s1\<lparr>stream_data := Some r, min_queue_point := Some r,
                                min_queue_offset := 0\<rparr>
                        else s1)
              in case link_tail r (g1, s2) of
                   Inl e \<Rightarrow> Some (Inl e)
                 | Inr (g2, s3) \<Rightarrow>
                     (let s4 = s3\<lparr>stream_data_tail := Some r,
                                  queue_size := queue_size s3 + rb_len b\<rparr>;
                          g3 = refbuf_addref r g2;
                          s5 = s4\<lparr>min_queue_offset := min_queue_offset s4 + rb_len b\<rparr>
                      in move_burst_point r g3 s5))))"

section \<open>source\_read\<close>

text \<open>
  What one call of \<open>source_read\<close> receives from outside the source: the flag
  \<open>global.running == ICE_RUNNING\<close>, the clock of the worker, \<open>global.sources\<close>,
  \<open>rate_avg\<close> of the incoming bitrate meter, the outcome of \<open>source_change_worker\<close>
  (moving the source client to another worker thread), of \<open>util_timed_wait_for_fd\<close>
  and of \<open>sock_recoverable\<close>, the replies of the format's \<open>get_buffer\<close> in call
  order, and the two floating point scalings of \<open>skip_duration\<close>, \<open>(int)(x * 1.3)\<close>
  and \<open>(long)(x * 0.9)\<close>.
\<close>

datatype get_buffer_reply = Block int "refbuf_flag set" | No_block bool

record read_env =
  global_running :: bool
  read_worker :: worker_t
  global_sources :: int
  in_rate :: int
  change_worker :: bool
  fds :: int
  recoverable :: bool
  get_buffer :: "nat \<Rightarrow> get_buffer_reply"
  grow :: "int \<Rightarrow> int"
  shrink :: "int \<Rightarrow> int"

text \<open>
  Modelled from the spec: the format adapter's \<open>get_buffer\<close>, which "reads from source
  socket, returns a framed chunk; nil on short read; sets \<open>SYNC_POINT\<close> flag".  A
  returned chunk is a new refbuf held once, with no successor; \<open>No_block e\<close> is a nil
  return, \<open>e\<close> telling whether the read marked the source client's connection as
  failed.
\<close>

definition refbuf_new :: "int \<Rightarrow> refbuf_flag set \<Rightarrow> global \<Rightarrow> addr \<times> global" where
  "refbuf_new n fl g =
     (brk g,
      g\<lparr>mem := (mem g)(brk g \<mapsto> \<lparr>rb_len = n, rb_flags = fl, rb_next = None, rb_count = 1\<rparr>),
        brk := brk g + 1\<rparr>)"

text \<open>Lines 491 to 561: the read loop; \<open>loop\<close> starts at 2, \<open>k\<close> counts the calls.\<close>

partial_function (option) read_blocks ::
  "read_env \<Rightarrow> int \<Rightarrow> nat \<Rightarrow> int \<Rightarrow> global \<Rightarrow> source_t \<Rightarrow>
     (fault + int \<times> global \<times> source_t) option"
where
  "read_blocks env loop k skip g s =
        (case get_buffer env k of
           Block n fl \<Rightarrow>
             (case refbuf_new n fl g of (r, g1) \<Rightarrow>
                Option.bind (queue_append r (g1, s))
                  (\<lambda>res. case res of
                      Inl e \<Rightarrow> Some (Inl e)
                    | Inr (g2, s2) \<Rightarrow>
                        if loop - 1 \<noteq> 0 then read_blocks env (loop - 1) (Suc k) 0 g2 s2
                        else Some (Inr (0, g2, s2))))
         | No_block e \<Rightarrow>
             (let c = client s;
                  s1 = s\<lparr>client := c\<lparr>con_error := (if e then 1 else con_error c)\<rparr>\<rparr>
              in if con_error (client s1) \<noteq> 0
                 then Some (Inr (0, logmsg INFO ''End of Stream %s'' g,
                                 s1\<lparr>flags := flags s1 - {SOURCE_RUNNING}\<rparr>))
                 else Some (Inr (skip, g, s1))))"

text \<open>Lines 563 to 574: the loop that drops blocks from the head of the queue.\<close>

partial_function (option) trim_queue ::
  "global \<Rightarrow> source_t \<Rightarrow> (fault + global \<times> source_t) option"
where
  "trim_queue g s =
        (case stream_data s of
           None \<Rightarrow>
             if queue_size s > queue_size_limit s then Some (Inl Bad_pointer)
             else Some (Inr (g, s))
         | Some h \<Rightarrow>
             (case mem g h of
                None \<Rightarrow> Some (Inl Bad_pointer)
              | Some b \<Rightarrow>
                  if queue_size s > queue_size_limit s \<or> rb_count b = 1 then
                    trim_queue
                      (refbuf_release h
                         (g\<lparr>mem := (mem g)(h \<mapsto> b\<lparr>rb_next := None,
                                  rb_flags := rb_flags b \<union> {SOURCE_BLOCK_RELEASE}\<rparr>)\<rparr>))
                      (s\<lparr>stream_data := rb_next b, queue_size := queue_size s - rb_len b\<rparr>)
                  else Some (Inr (g, s))))"

text \<open>
  Lines 362 to 391, \<open>incoming\<close> being \<open>rate_avg\<close> of the incoming bitrate meter;
  the publication of the statistics is outside the model.
\<close>

definition update_source_stats :: "int \<Rightarrow> source_t \<Rightarrow> source_t" where
  "update_source_stats incoming s =
     s\<lparr>format_sent_bytes := format_sent_bytes s + (bytes_sent_since_update s div 1024) * 1024,
       bytes_sent_since_update := bytes_sent_since_update s mod 1024,
       bytes_read_since_update := bytes_read_since_update s mod 1024,
       listener_send_trigger := incoming\<rparr>"

definition add_schedule :: "int \<Rightarrow> source_t \<Rightarrow> source_t" where
  "add_schedule d s = s\<lparr>client := (client s)\<lparr>schedule_ms := schedule_ms (client s) + d\<rparr>\<rparr>"

text \<open>Lines 577 to 582.\<close>

definition source_read_finish :: "int \<times> global \<times> source_t \<Rightarrow> int \<times> global \<times> source_t" where
  "source_read_finish st =
     (case st of (skip, g, s) \<Rightarrow>
        (0, g, if skip \<noteq> 0 then add_schedule (or (skip_duration s) 15) s
               else add_schedule 15 s))"

text \<open>Lines 457 to 574: waiting for the socket, reading, trimming.\<close>

definition source_read_data ::
  "read_env \<Rightarrow> global \<times> source_t \<Rightarrow> (fault + int \<times> global \<times> source_t) option"
where
  "source_read_data env gs =
     (case gs of (g, s) \<Rightarrow>
        (let current = current_time (read_worker env) in
         if fds env < 0 then
           (if \<not> recoverable env
            then Some (Inr (1, logmsg WARN ''Error while waiting on socket, Disconnecting source'' g,
                            s\<lparr>flags := flags s - {SOURCE_RUNNING}\<rparr>))
            else Some (Inr (1, g, s)))
         else if fds env = 0 then
           (let g1 = (if last_read s + 3 = current
                      then logmsg WARN ''Nothing received on %s for 3 seconds'' g else g)
            in if last_read s + timeout s < current
               then Some (Inr (0,
                      logmsg WARN ''Disconnecting %s due to socket timeout''
                        (logmsg DEBUG ''last %ld, timeout %d, now %ld'' g1),
                      s\<lparr>flags := (flags s - {SOURCE_RUNNING}) \<union> {SOURCE_TIMEOUT}\<rparr>))
               else Some (Inr (1, g1,
                      s\<lparr>skip_duration := (if grow env (skip_duration s) > 400 then 400
                                            else grow env (skip_duration s))\<rparr>)))
         else
           (let s1 = s\<lparr>skip_duration := (if shrink env (skip_duration s) < 10 then 10
                                           else shrink env (skip_duration s)),
                        last_read := current\<rparr>
            in Option.bind (read_blocks env 2 0 1 g s1)
                 (\<lambda>res. case res of
                     Inl e \<Rightarrow> Some (Inl e)
                   | Inr (skip, g2, s2) \<Rightarrow>
                       Option.bind (trim_queue g2 s2)
                         (\<lambda>res2. case res2 of
                             Inl e \<Rightarrow> Some (Inl e)
                           | Inr (g3, s3) \<Rightarrow> Some (Inr (skip, g3, s3)))))))"

text \<open>Lines 424 to 430: the listeners have all acknowledged the synchronisation.\<close>

definition source_read_sync_done :: "global \<times> source_t \<Rightarrow> global \<times> source_t" where
  "source_read_sync_done gs =
     (case gs of (g, s) \<Rightarrow>
        if SOURCE_LISTENERS_SYNC \<in> flags s then
          (if fb_mount (fallback s) \<noteq> None
           then (logmsg DEBUG ''listeners have now moved to %s'' g,
                 s\<lparr>fallback := (fallback s)\<lparr>fb_mount := None\<rparr>,
                   flags := flags s - {SOURCE_LISTENERS_SYNC}\<rparr>)
           else (g, s\<lparr>flags := flags s - {SOURCE_LISTENERS_SYNC}\<rparr>))
        else (g, s))"

text \<open>Lines 432 to 449: listener counts and the periodic statistics.\<close>

definition source_read_counts :: "read_env \<Rightarrow> global \<times> source_t \<Rightarrow> global \<times> source_t" where
  "source_read_counts env gs =
     (case gs of (g, s) \<Rightarrow>
        (let current = current_time (read_worker env);
             g1 = (if prev_listeners s \<noteq> listeners s
                   then logmsg INFO ''listener count on %s now %lu'' g else g);
             s1 = (if prev_listeners s \<noteq> listeners s
                   then s\<lparr>prev_listeners := listeners s,
                          peak_listeners := (if listeners s > peak_listeners s then listeners s
                                             else peak_listeners s)\<rparr>
                   else s);
             s2 = (if current \<ge> client_stats_update s1
                   then (update_source_stats (in_rate env) s1)
                          \<lparr>client_stats_update := current + stats_interval s1\<rparr>
                   else s1)
         in (g1, s2)))"

text \<open>
  \<open>source_read\<close>, lines 398 to 583.  The result is the returned integer with the state;
  the source lock and the bitrate meters are outside the model.
\<close>

definition source_read ::
  "read_env \<Rightarrow> global \<times> source_t \<Rightarrow> (fault + int \<times> global \<times> source_t) option"
where
  "source_read env gs =
     (case gs of (g, s) \<Rightarrow>
        (let w = read_worker env;
             current = current_time w;
             s0 = (if \<not> global_running env then s\<lparr>flags := flags s - {SOURCE_RUNNING}\<rparr> else s);
             s1 = s0\<lparr>client := (client s0)\<lparr>schedule_ms := time_ms w\<rparr>\<rparr>
         in if SOURCE_LISTENERS_SYNC \<in> flags s1 \<and> termination_count s1 \<noteq> 0 then
              (let late = timer_start (client s1) + 1500 < time_ms w;
                   s2 = (if late
                         then s1\<lparr>flags := flags s1 - {SOURCE_RUNNING, SOURCE_LISTENERS_SYNC}\<rparr>
                         else s1);
                   g2 = (if late then logmsg WARN ''stopping %s as sync mode lasted too long'' g
                         else g)
               in Some (Inr (0, g2, add_schedule 30 s2)))
            else
              (case source_read_counts env (source_read_sync_done (g, s1)) of (g3, s3) \<Rightarrow>
                 (let recheck = (if global_sources env > 6 then global_sources env else 6);
                      due = current \<ge> worker_balance_recheck s3;
                      s4 = (if due then s3\<lparr>worker_balance_recheck := current + recheck\<rparr> else s3)
                  in if due \<and> change_worker env
                     then Some (Inr (1, logmsg DEBUG ''moving source from %p to %p'' g3, s4))
                     else map_option (map_sum id source_read_finish) (source_read_data env (g3, s4))))))"

section \<open>source\_reserve: a new source\<close>

text \<open>
  The client structure as \<open>calloc\<close> leaves it, and the source that \<open>source_reserve\<close>
  allocates (lines 147 to 156): everything zero but the mount name and
  \<open>listener_send_trigger\<close>.
\<close>

definition zero_client :: client_t where
  "zero_client =
     \<lparr>con_id = 0, con_error = 0, con_sent_bytes = 0, con_discon_time = 0, con_time = 0,
      cl_flags = {}, refbuf = None, pos = 0, queue_pos = 0, intro_offset = 0,
      check_buffer = write_buf_to_client, ops = listener_client_ops, schedule_ms = 0,
      timer_start = 0, username = None, shared_data = None, cl_mount = None, respcode = 0,
      burst_param = None, initial_burst = None\<rparr>"

definition new_source :: "string \<Rightarrow> source_t" where
  "new_source m =
     \<lparr>mount = m, flags = {}, listener_send_trigger = 10000, client = zero_client,
      client_stats_update = 0, worker_balance_recheck = 0, format_type = 0,
      format_sent_bytes = 0, clients = [], dumpfile = False,
      fallback = \<lparr>fb_flags = {}, fb_mount = None, fb_limit = 0, fb_type = 0\<rparr>,
      skip_duration = 0, limit_rate = 0, incoming_rate = 0, wait_time = 0, last_read = 0,
      termination_count = 0, peak_listeners = 0, listeners = 0, prev_listeners = 0,
      stats_interval = 0, default_burst_size = 0, min_queue_offset = 0, min_queue_size = 0,
      queue_size = 0, queue_size_limit = 0, timeout = 0, bytes_sent_since_update = 0,
      bytes_read_since_update = 0, stream_data = None, stream_data_tail = None,
      min_queue_point = None\<rparr>"

section \<open>locate\_start\_on\_queue\<close>

text \<open>
  Modelled from the spec: \<open>client_set_queue\<close> of client.c, which is not among the
  sources.  "A Listener holds zero or one reference to a RefBuf": the listener takes a
  reference on the new block, gives up the one it held, and starts at offset 0.
\<close>

definition client_set_queue :: "addr option \<Rightarrow> global \<times> client_t \<Rightarrow> global \<times> client_t" where
  "client_set_queue r gc =
     (case gc of (g, c) \<Rightarrow>
        (let g1 = (case r of None \<Rightarrow> g | Some a \<Rightarrow> refbuf_addref a g);
             g2 = (case refbuf c of None \<Rightarrow> g1 | Some old \<Rightarrow> refbuf_release old g1)
         in (g2, c\<lparr>refbuf := r, pos := 0\<rparr>)))"

text \<open>
  The burst walk, lines 730 to 735.  \<open>sz\<close> is the \<open>size_t\<close> variable \<open>size\<close> and \<open>v\<close> an \<open>off_t\<close>;
  with both 64 bits wide the comparison and the subtraction are unsigned, modulo
  \<open>2 ^ 64\<close>.  \<open>lag\<close> is a \<open>long\<close>.
\<close>

partial_function (option) burst_walk ::
  "memory \<Rightarrow> int \<Rightarrow> int \<Rightarrow> int \<Rightarrow> addr option \<Rightarrow> (fault + addr option \<times> int) option"
where
  "burst_walk m sz v lag p =
     (if sz > v then
        (case p of
           None \<Rightarrow> Some (Inr (p, lag))
         | Some a \<Rightarrow>
             (case m a of
                None \<Rightarrow> Some (Inl Bad_pointer)
              | Some b \<Rightarrow>
                  (case rb_next b of
                     None \<Rightarrow> Some (Inr (p, lag))
                   | Some n \<Rightarrow>
                       burst_walk m ((sz - rb_len b) mod 2 ^ 64) v (lag - rb_len b) (Some n))))
      else Some (Inr (p, lag)))"

text \<open>Lines 718 to 737: the start from the burst point.\<close>

definition burst_start ::
  "global \<Rightarrow> source_t \<Rightarrow> client_t \<Rightarrow> (fault + global \<times> addr option \<times> int) option"
where
  "burst_start g s c =
     (let v0 = (case burst_param c of
                  Some x \<Rightarrow> x
                | None \<Rightarrow> (case initial_burst c of Some x \<Rightarrow> x | None \<Rightarrow> default_burst_size s));
          v = (v0 - con_sent_bytes c) mod 2 ^ 64
      in Option.bind
           (burst_walk (mem g) (min_queue_size s mod 2 ^ 64) v (min_queue_offset s)
              (min_queue_point s))
           (\<lambda>res. case res of
               Inl e \<Rightarrow> Some (Inl e)
             | Inr (p, lag) \<Rightarrow>
                 Some (Inr (if lag < 0 then logmsg ERROR ''Odd, lag is negative'' g else g,
                            p, lag))))"

text \<open>Lines 711 to 738: the block from which the search for a sync point starts, and the lag there.\<close>

definition chosen_point ::
  "global \<Rightarrow> source_t \<Rightarrow> client_t \<Rightarrow> addr \<Rightarrow> (fault + global \<times> addr option \<times> int) option"
where
  "chosen_point g s c t =
     (if con_sent_bytes c > min_queue_offset s then
        (case mem g t of
           None \<Rightarrow> Some (Inl Bad_pointer)
         | Some tb \<Rightarrow>
             if SOURCE_BLOCK_SYNC \<in> rb_flags tb then Some (Inr (g, Some t, rb_len tb))
             else burst_start g s c)
      else burst_start g s c)"

text \<open>Lines 740 to 752: the search for a block flagged as sync point.\<close>

partial_function (option) find_sync ::
  "memory \<Rightarrow> int \<Rightarrow> addr option \<Rightarrow> (fault + (addr \<times> int) option) option"
where
  "find_sync m lag p =
     (case p of
        None \<Rightarrow> Some (Inr None)
      | Some a \<Rightarrow>
          (case m a of
             None \<Rightarrow> Some (Inl Bad_pointer)
           | Some b \<Rightarrow>
               if SOURCE_BLOCK_SYNC \<in> rb_flags b then Some (Inr (Some (a, lag)))
               else find_sync m (lag - rb_len b) (rb_next b)))"

definition locate_start_on_queue ::
  "global \<times> source_t \<times> client_t \<Rightarrow> (fault + int \<times> global \<times> client_t) option"
where
  "locate_start_on_queue gsc =
     (case gsc of (g, s, c) \<Rightarrow>
        if con_error c \<noteq> 0 then Some (Inr (- 1, g, c))
        else
          (case stream_data_tail s of
             None \<Rightarrow> Some (Inr (- 1, g, c))
           | Some t \<Rightarrow>
               Option.bind (chosen_point g s c t)
                 (\<lambda>res. case res of
                     Inl e \<Rightarrow> Some (Inl e)
                   | Inr (g1, p, lag) \<Rightarrow>
                       Option.bind (find_sync (mem g1) lag p)
                         (\<lambda>res2. case res2 of
                             Inl e \<Rightarrow> Some (Inl e)
                           | Inr None \<Rightarrow>
                               Some (Inr (- 1, g1, c\<lparr>schedule_ms := schedule_ms c + 150\<rparr>))
                           | Inr (Some (a, lag')) \<Rightarrow>
                               (case client_set_queue (Some a) (g1, c) of (g2, c1) \<Rightarrow>
                                  Some (Inr (0, g2,
                                    c1\<lparr>intro_offset := - 1, pos := 0,
                                       queue_pos := queue_pos (client s) - lag'\<rparr>)))))))"

section \<open>The mount registry and the fallback chain\<close>

text \<open>
  The settings of a mount in the configuration (\<open>mount_proxy\<close> and \<open>auth_t\<close> are
  declared in cfgfile.h and auth.h, not among the sources); the fields are those that
  source.c consults in the functions below.
\<close>

record auth_t =
  allow_duplicate_users :: bool
  drop_existing_listener :: bool

record mount_proxy =
  fallback_mount :: "string option"
  fallback_when_full :: bool
  max_listeners :: int
  max_bandwidth :: int
  mp_limit_rate :: int
  max_listener_duration :: int
  on_disconnect :: "string option"
  auth :: "auth_t option"

text \<open>
  \<open>global.source_tree\<close> is an AVL tree of sources ordered by mount name, which
  \<open>source_find_mount_raw\<close> (lines 173 to 198) searches for an exact match: a finite
  map.  \<open>config_find_mount\<close> of cfgfile.c is a parameter of the functions that call it.
\<close>

type_synonym source_tree = "string \<Rightarrow> source_t option"

type_synonym config = "string \<Rightarrow> mount_proxy option"

definition source_find_mount_raw :: "source_tree \<Rightarrow> string option \<Rightarrow> source_t option" where
  "source_find_mount_raw tree mnt = (case mnt of None \<Rightarrow> None | Some m \<Rightarrow> tree m)"

text \<open>
  Modelled from the spec: the macros \<open>source_available\<close> and \<open>source_running\<close> of
  source.h, which is not among the sources.  "A source is available when \<open>RUNNING\<close> is
  set and \<open>LISTENERS_SYNC\<close> is clear."
\<close>

definition source_available :: "source_t \<Rightarrow> bool" where
  "source_available s \<longleftrightarrow> SOURCE_RUNNING \<in> flags s \<and> SOURCE_LISTENERS_SYNC \<notin> flags s"

definition source_running :: "source_t \<Rightarrow> bool" where
  "source_running s \<longleftrightarrow> SOURCE_RUNNING \<in> flags s"

definition MAX_FALLBACK_DEPTH :: nat where
  "MAX_FALLBACK_DEPTH = 10"

text \<open>The loop of \<open>source_find_mount\<close>, lines 213 to 233, from a given \<open>depth\<close>.\<close>

function find_mount_from ::
  "source_tree \<Rightarrow> config \<Rightarrow> string option \<Rightarrow> nat \<Rightarrow> source_t option"
where
  "find_mount_from tree cfg mnt depth =
     (case mnt of
        None \<Rightarrow> None
      | Some m \<Rightarrow>
          if depth < MAX_FALLBACK_DEPTH then
            (case source_find_mount_raw tree (Some m) of
               Some src \<Rightarrow>
                 if source_available src then Some src
                 else (case cfg m of
                         None \<Rightarrow> None
                       | Some mountinfo \<Rightarrow>
                           find_mount_from tree cfg (fallback_mount mountinfo) (depth + 1))
             | None \<Rightarrow>
                 (case cfg m of
                    None \<Rightarrow> None
                  | Some mountinfo \<Rightarrow>
                      find_mount_from tree cfg (fallback_mount mountinfo) (depth + 1)))
          else None)"
  by pat_completeness auto
termination
  by (relation "measure (\<lambda>(tree, cfg, mnt, depth). MAX_FALLBACK_DEPTH - depth)") auto

definition source_find_mount :: "source_tree \<Rightarrow> config \<Rightarrow> string option \<Rightarrow> source_t option" where
  "source_find_mount tree cfg mnt = find_mount_from tree cfg mnt 0"

text \<open>
  The traversal in the words of the specification: \<open>hop tree cfg m n\<close> is the mount
  consulted at hop \<open>n\<close> when the lookup starts at \<open>m\<close>, where a hop leads from a mount
  without an available source to the \<open>fallback_mount\<close> that the configuration gives for
  it; \<open>None\<close> when the traversal has ended before.
\<close>

fun hop :: "source_tree \<Rightarrow> config \<Rightarrow> string \<Rightarrow> nat \<Rightarrow> string option" where
  "hop tree cfg m 0 = Some m"
| "hop tree cfg m (Suc n) =
     (case hop tree cfg m n of
        None \<Rightarrow> None
      | Some m' \<Rightarrow>
          (case tree m' of
             None \<Rightarrow> (case cfg m' of None \<Rightarrow> None | Some mountinfo \<Rightarrow> fallback_mount mountinfo)
           | Some src \<Rightarrow>
               if source_available src then None
               else (case cfg m' of None \<Rightarrow> None | Some mountinfo \<Rightarrow> fallback_mount mountinfo)))"

section \<open>Termination of a source\<close>

text \<open>Lines 586 to 598; the listeners of a source are kept in the order of their connection ids.\<close>

definition source_listeners_wakeup :: "global \<times> source_t \<Rightarrow> global \<times> source_t" where
  "source_listeners_wakeup gs =
     (case gs of (g, s) \<Rightarrow>
        (fold (\<lambda>c g'. if schedule_ms (client s) + 100 < schedule_ms c
                       then logmsg DEBUG ''listener on %s was ahead by %ld'' g' else g')
           (clients s) g,
         s\<lparr>clients := map (\<lambda>c. c\<lparr>schedule_ms := 0\<rparr>) (clients s)\<rparr>))"

text \<open>
  Lines 1220 to 1249.  \<open>now\<close> is the worker's \<open>current_time.tv_sec\<close> and \<open>incoming\<close>
  the value of \<open>(int) rate_avg\<close> of the incoming bitrate meter.
\<close>

definition source_set_fallback ::
  "int \<Rightarrow> int \<Rightarrow> global \<times> source_t \<Rightarrow> string option \<Rightarrow> global \<times> source_t"
where
  "source_set_fallback now incoming gs dest_mount =
     (case gs of (g, s) \<Rightarrow>
        (case dest_mount of
           None \<Rightarrow> (logmsg INFO ''No fallback on %s'' g, s)
         | Some d \<Rightarrow>
             if listeners s = 0
             then (logmsg INFO ''fallback on %s to %s, but no listeners'' g, s)
             else
               (let connected = now - con_time (client s);
                    bitrate = (if connected > 40 then incoming else 0);
                    bitrate' = (if bitrate = 0 \<and> limit_rate s \<noteq> 0 then limit_rate s
                                else bitrate)
                in (logmsg INFO ''fallback set on %s to %s(%d) with %d listeners'' g,
                    s\<lparr>fallback := (fallback s)\<lparr>fb_mount := Some d, fb_flags := {FS_FALLBACK},
                                      fb_limit := bitrate', fb_type := format_type s\<rparr>\<rparr>))))"

text \<open>
  Lines 1252 to 1278.  \<open>mountinfo\<close> is what \<open>config_find_mount\<close> gives for the mount of
  the source; the on-disconnect script and \<open>auth_stream_end\<close> are recorded as events.
\<close>

definition source_shutdown ::
  "read_env \<Rightarrow> mount_proxy option \<Rightarrow> global \<times> source_t \<Rightarrow> bool \<Rightarrow> global \<times> source_t"
where
  "source_shutdown env mountinfo gs with_fallback =
     (case gs of (g, s) \<Rightarrow>
        (let w = read_worker env;
             g1 = logmsg INFO ''Source \"%s\" exiting'' g;
             s1 = s\<lparr>flags := (flags s - {SOURCE_ON_DEMAND, SOURCE_TIMEOUT})
                                \<union> {SOURCE_TERMINATING, SOURCE_LISTENERS_SYNC},
                    termination_count := listeners s,
                    client := (client s)\<lparr>timer_start := time_ms w\<rparr>\<rparr>
         in case source_listeners_wakeup (g1, s1) of (g2, s2) \<Rightarrow>
              (let ran = con_time (client s2) \<noteq> 0;
                   s3 = (if ran then update_source_stats (in_rate env) s2 else s2);
                   g3 = (case mountinfo of
                           None \<Rightarrow> g2
                         | Some mi \<Rightarrow>
                             if ran then
                               (let g' = (case on_disconnect mi of
                                            None \<Rightarrow> g2
                                          | Some cmd \<Rightarrow>
                                              g2\<lparr>trace := trace g2 @ [Run_script cmd (mount s)]\<rparr>)
                                in g'\<lparr>trace := trace g' @ [Auth_stream_end (mount s)]\<rparr>)
                             else g2)
               in case mountinfo of
                    None \<Rightarrow> (g3, s3)
                  | Some mi \<Rightarrow>
                      if with_fallback \<and> global_running env
                      then source_set_fallback (current_time w) (in_rate env) (g3, s3)
                             (fallback_mount mi)
                      else (g3, s3))))"

text \<open>
  Lines 639 to 673 of \<open>source_client_read\<close>: the source client of a source that is
  not running, after the shutdown has been started.
\<close>

definition source_client_wait :: "read_env \<Rightarrow> global \<times> source_t \<Rightarrow> global \<times> source_t" where
  "source_client_wait env gs =
     (case gs of (g, s) \<Rightarrow>
        (let w = read_worker env; c = client s in
         if termination_count s \<noteq> 0 \<and> termination_count s \<le> listeners s then
           (if timer_start c + 1500 < time_ms w
            then (logmsg WARN ''%ld listeners still to process in terminating %s'' g,
                  s\<lparr>flags := flags s - {SOURCE_TERMINATING},
                    client := c\<lparr>schedule_ms := time_ms w + 100\<rparr>\<rparr>)
            else (logmsg DEBUG ''%s waiting (%lu, %lu)'' g,
                  s\<lparr>client := c\<lparr>schedule_ms := time_ms w + 100\<rparr>\<rparr>))
         else if listeners s \<noteq> 0 then
           source_listeners_wakeup
             (logmsg INFO ''listeners on terminating source %s, rechecking'' g,
              s\<lparr>termination_count := listeners s,
                client := c\<lparr>timer_start := time_ms w\<rparr>,
                flags := (flags s - {SOURCE_PAUSE_LISTENERS}) \<union> {SOURCE_LISTENERS_SYNC}\<rparr>)
         else
           (logmsg INFO ''no more listeners on %s'' g,
            s\<lparr>client := c\<lparr>con_discon_time := 0, ops := source_client_halt_ops\<rparr>,
              fallback := (fallback s)\<lparr>fb_mount := None\<rparr>,
              flags := flags s - {SOURCE_LISTENERS_SYNC}\<rparr>)))"

text \<open>
  \<open>source_client_read\<close>, lines 601 to 674, for the client \<open>client s\<close> of the source
  \<open>s\<close> it points to; a hijacked client, whose \<open>shared_data\<close> is nil, returns \<open>-1\<close>.
\<close>

definition source_client_read ::
  "read_env \<Rightarrow> mount_proxy option \<Rightarrow> global \<times> source_t \<Rightarrow>
     (fault + int \<times> global \<times> source_t) option"
where
  "source_client_read env mountinfo gs =
     (case gs of (g, s) \<Rightarrow>
        if shared_data (client s) = None
        then Some (Inr (- 1, logmsg INFO ''source client from %s hijacked'' g, s))
        else
          (let w = read_worker env;
               expired = (con_discon_time (client s) \<noteq> 0 \<and>
                          con_discon_time (client s) \<le> current_time w);
               g1 = (if expired then logmsg INFO ''streaming duration expired on %s'' g else g);
               s1 = (if expired then s\<lparr>flags := flags s - {SOURCE_RUNNING}\<rparr> else s)
           in if source_running s1 then
                (if limit_rate s1 \<noteq> 0 then
                   (let s2 = s1\<lparr>incoming_rate := in_rate env\<rparr>
                    in if limit_rate s2 < 8 * incoming_rate s2
                       then Some (Inr (0, g1, add_schedule 110 s2))
                       else source_read env (g1, s2))
                 else source_read env (g1, s1))
              else
                (case (if SOURCE_TERMINATING \<notin> flags s1
                       then source_shutdown env mountinfo (g1, s1) True else (g1, s1))
                 of (g2, s2) \<Rightarrow>
                   (case source_client_wait env (g2, s2) of (g3, s3) \<Rightarrow>
                      Some (Inr (0, g3, s3))))))"

section \<open>Listeners: attaching, detaching and sending\<close>


text \<open>
  The tree \<open>source->clients\<close> holds the client structures themselves.  A function that
  works on a listener takes the structure as it stands and returns it as it leaves it;
  \<open>store_client\<close> brings the entry of the listener in the tree up to date, so that the
  tree of a source returned shows what the code's tree shows.

  The counters \<open>listeners\<close> and \<open>termination_count\<close> are \<open>unsigned long\<close>, 64 bits
  wide: \<open>++\<close> and \<open>--\<close> wrap around modulo \<open>2 ^ 64\<close>.
\<close>

definition store_client :: "client_t \<Rightarrow> source_t \<Rightarrow> source_t" where
  "store_client c s = s\<lparr>clients := map (\<lambda>x. if con_id x = con_id c then c else x) (clients s)\<rparr>"

text \<open>
  Lines 2033 to 2058.  The listener is entered in the tree as the function leaves it.
\<close>

fun insert_client :: "client_t \<Rightarrow> client_t list \<Rightarrow> client_t list" where
  "insert_client c [] = [c]"
| "insert_client c (x # xs) =
     (if con_id c < con_id x then c # x # xs
      else if con_id c = con_id x then x # xs
      else x # insert_client c xs)"

definition source_setup_listener ::
  "worker_t \<Rightarrow> global \<times> source_t \<times> client_t \<Rightarrow> global \<times> source_t \<times> client_t"
where
  "source_setup_listener w gsc =
     (case gsc of (g, s, c) \<Rightarrow>
        (let relay = (flags s \<inter> {SOURCE_ON_DEMAND, SOURCE_RUNNING} = {SOURCE_ON_DEMAND});
             c1 = c\<lparr>ops := (if SOURCE_LISTENERS_SYNC \<in> flags s then listener_wait_ops
                               else if relay then listener_pause_ops
                               else listener_client_ops),
                      shared_data := Some (mount s),
                      queue_pos := 0,
                      cl_mount := Some (mount s),
                      cl_flags := cl_flags c - {CLIENT_IN_FSERVE},
                      timer_start := current_time w,
                      check_buffer := http_source_listener,
                      schedule_ms := (if relay then schedule_ms c + 300 else schedule_ms c)\<rparr>;
             s1 = s\<lparr>clients := insert_client c1 (clients s),
                    listeners := (listeners s + 1) mod 2 ^ 64\<rparr>
         in if relay
            then (logmsg DEBUG ''woke up relay'' g,
                  s1\<lparr>client := (client s1)\<lparr>schedule_ms := 0\<rparr>\<rparr>, c1)
            else (g, s1, c1)))"






text \<open>The quotient that C computes for \<open>a / b\<close> on integers: rounded towards zero.\<close>

definition c_div :: "int \<Rightarrow> int \<Rightarrow> int" where
  "c_div a b = (if (a < 0) = (b < 0) then \<bar>a\<bar> div \<bar>b\<bar> else - (\<bar>a\<bar> div \<bar>b\<bar>))"





section \<open>Admission of a listener\<close>

text \<open>Lines 1749 to 1779: the walk over the listeners of the source, in tree order.\<close>

fun drop_or_refuse :: "bool \<Rightarrow> string \<Rightarrow> client_t list \<Rightarrow> int \<times> bool \<times> client_t list" where
  "drop_or_refuse dropping u [] = (1, False, [])"
| "drop_or_refuse dropping u (x # xs) =
     (if username x = Some u then
        (if dropping then (1, True, x\<lparr>con_error := 1\<rparr> # xs) else (0, False, x # xs))
      else (case drop_or_refuse dropping u xs of (r, logged, xs') \<Rightarrow> (r, logged, x # xs')))"

definition check_duplicate_logins ::
  "global \<times> source_t \<Rightarrow> client_t \<Rightarrow> auth_t option \<Rightarrow> int \<times> global \<times> source_t"
where
  "check_duplicate_logins gs c au =
     (case gs of (g, s) \<Rightarrow>
        (case au of
           None \<Rightarrow> (1, g, s)
         | Some a \<Rightarrow>
             if allow_duplicate_users a then (1, g, s)
             else
               (case username c of
                  None \<Rightarrow> (1, g, s)
                | Some u \<Rightarrow>
                    if CLIENT_IS_SLAVE \<in> cl_flags c then (1, g, s)
                    else
                      (case drop_or_refuse (drop_existing_listener a) u (clients s)
                       of (r, logged, cs) \<Rightarrow>
                         (r,
                          if logged
                          then logmsg INFO ''Found %s on %s, dropping previous account'' g else g,
                          s\<lparr>clients := cs\<rparr>)))))"

text \<open>
  What \<open>source_add_listener\<close> receives from outside: the configuration
  (\<open>config_find_mount\<close> and the server-wide \<open>max_bandwidth\<close>), whether the source on a
  mount has a format and \<open>8 * rate_avg\<close> of its incoming bitrate,
  \<open>8 * global_getrate_avg\<close>, whether
  \<open>move_listener\<close> places the listener on a file at a rate, the rate that
  \<open>sscanf (mount, "%*[^[][%d]", &rate)\<close> reads from a mount name, \<open>time(NULL)\<close>, the
  clock of the listener's worker, and the constant \<open>PER_CLIENT_REFBUF_SIZE\<close>.
\<close>

record add_env =
  a_config :: config
  a_max_bandwidth :: int
  has_format :: "string \<Rightarrow> bool"
  stream_rate :: "string \<Rightarrow> int"
  a_global_rate :: int
  file_fallback :: "string \<Rightarrow> int \<Rightarrow> bool"
  bracket_rate :: "string \<Rightarrow> int option"
  a_time :: int
  a_worker :: worker_t
  PER_CLIENT_REFBUF_SIZE :: int

datatype admission =
    Send_403 string
  | Send_403redirect string string
  | No_mount
  | On_file
  | On_source string

text \<open>
  Lines 1967 to 1988: the limits of the mount \<open>mi\<close> for one more listener on the source
  \<open>src\<close>, whose incoming bitrate is \<open>stream_bitrate\<close>.  The boolean tells whether the
  listener is within them (one of the two \<open>break\<close>s is taken).  \<open>source->listeners\<close> is
  an \<open>unsigned long\<close>, 64 bits wide, so the product of line 1974 and both comparisons
  with it are unsigned, modulo \<open>2 ^ 64\<close>.
\<close>

definition within_limits :: "mount_proxy \<Rightarrow> int \<Rightarrow> source_t \<Rightarrow> global \<Rightarrow> bool \<times> global" where
  "within_limits mi stream_bitrate src g =
     (let g3 = logmsg INFO ''max on %s is %d (cur %lu)'' g;
          checked = (max_bandwidth mi > - 1 \<and> stream_bitrate \<noteq> 0);
          over = (checked \<and> ((listeners src + 1) * stream_bitrate) mod 2 ^ 64
                              > max_bandwidth mi mod 2 ^ 64);
          g4 = (if checked then logmsg DEBUG ''checking bandwidth limits for %s (%, %)'' g3
                else g3)
      in if over then (False, logmsg INFO ''bandwidth limit reached on %s'' g4)
         else if max_listeners mi = - 1 \<or> listeners src < max_listeners mi mod 2 ^ 64
         then (True, g4)
         else (False, logmsg INFO ''max listener count reached on %s'' g4))"

text \<open>
  Lines 1931 to 2001: the checks for a listener \<open>c\<close> once an available source \<open>src\<close> has
  been found on \<open>mnt\<close>.  \<open>mountinfo\<close> is the entry passed by the caller, \<open>minfo\<close> the one
  that follows the fallbacks.  The result is the outcome, or the mount to try next when
  the stream is full and has a fallback for that.
\<close>

definition admit_to ::
  "add_env \<Rightarrow> string \<Rightarrow> mount_proxy option \<Rightarrow> string \<Rightarrow> mount_proxy option \<Rightarrow> source_t \<Rightarrow>
   global \<times> source_tree \<times> client_t \<Rightarrow>
   (admission \<times> global \<times> source_tree \<times> client_t) + (string \<times> global \<times> source_tree \<times> client_t)"
where
  "admit_to env passed_mount mountinfo mnt minfo src st =
     (case st of (g, tree, c) \<Rightarrow>
        if CLIENT_IS_SLAVE \<in> cl_flags c
        then Inl (On_source mnt, logmsg INFO ''client is from a slave, bypassing limits'' g, tree, c)
        else
          (let stream_bitrate = (if has_format env mnt then stream_rate env mnt else 0);
               limited = (has_format env mnt \<and> a_max_bandwidth env \<noteq> 0);
               g1 = (if limited then logmsg DEBUG ''server outgoing bitrate is %'' g else g)
           in if limited \<and> a_global_rate env + stream_bitrate > a_max_bandwidth env
              then Inl (Send_403redirect passed_mount ''server bandwidth reached'',
                        logmsg INFO ''server-wide outgoing bandwidth limit reached'' g1, tree, c)
              else
                (case mountinfo of
                   None \<Rightarrow> Inl (On_source mnt, g1, tree, c)
                 | Some mi \<Rightarrow>
                     (case check_duplicate_logins (g1, src) c (auth mi) of
                        (ok, g2, src1) \<Rightarrow>
                          (let tree1 = tree(mnt \<mapsto> src1) in
                           if ok = 0
                           then Inl (Send_403 ''Account already in use'', g2, tree1, c)
                           else
                             (let c1 = (if max_listener_duration mi \<noteq> 0
                                           \<and> con_discon_time c = 0
                                        then c\<lparr>con_discon_time :=
                                                  a_time env + max_listener_duration mi\<rparr>
                                        else c)
                              in case within_limits mi stream_bitrate src1 g2 of
                                   (room, g3) \<Rightarrow>
                                     if room then Inl (On_source mnt, g3, tree1, c1)
                                     else
                                       (case (case minfo of
                                                None \<Rightarrow> None
                                              | Some m' \<Rightarrow>
                                                  if fallback_when_full m' then fallback_mount m'
                                                  else None)
                                        of Some fm \<Rightarrow>
                                             Inr (fm, logmsg INFO ''stream full trying %s'' g3,
                                                  tree1, c1)
                                         | None \<Rightarrow>
                                             Inl (Send_403redirect passed_mount
                                                    ''max listeners reached'', g3, tree1, c1))))))))"

text \<open>
  The two nested loops of lines 1877 to 2003; every round starts with the test of
  \<open>loop\<close> and the lookup of \<open>mount\<close>.
\<close>

fun find_place ::
  "add_env \<Rightarrow> string \<Rightarrow> mount_proxy option \<Rightarrow> nat \<Rightarrow> int \<Rightarrow> string \<Rightarrow> mount_proxy option \<Rightarrow>
   global \<times> source_tree \<times> client_t \<Rightarrow> admission \<times> global \<times> source_tree \<times> client_t"
where
  "find_place env passed_mount mountinfo 0 rate mnt minfo st =
     (case st of (g, tree, c) \<Rightarrow>
        (Send_403 ''Fallback through too many mountpoints'',
         logmsg WARN ''preventing a fallback loop'' g, tree, c))"
| "find_place env passed_mount mountinfo (Suc loop) rate mnt minfo st =
     (case st of (g, tree, c) \<Rightarrow>
        (case (case source_find_mount_raw tree (Some mnt) of
                 None \<Rightarrow> None
               | Some src \<Rightarrow> if source_available src then Some src else None)
         of None \<Rightarrow>
              (let rate1 = (case minfo of
                              None \<Rightarrow> rate
                            | Some mi \<Rightarrow> if mp_limit_rate mi \<noteq> 0 then mp_limit_rate mi else rate)
               in case (case minfo of None \<Rightarrow> None | Some mi \<Rightarrow> fallback_mount mi) of
                    None \<Rightarrow>
                      (let rate2 = (if rate1 = 0
                                    then (case bracket_rate env mnt of
                                            None \<Rightarrow> rate1
                                          | Some r \<Rightarrow> c_div (r * 1000) 8)
                                    else rate1)
                       in if rate2 \<noteq> 0 \<and> file_fallback env mnt rate2
                          then (On_file, g, tree, c)
                          else (No_mount, g, tree, c))
                  | Some fm \<Rightarrow>
                      find_place env passed_mount mountinfo loop rate1 fm (a_config env fm)
                        (g, tree, c))
          | Some src \<Rightarrow>
              (case admit_to env passed_mount mountinfo mnt minfo src (g, tree, c) of
                 Inl r \<Rightarrow> r
               | Inr (fm, st') \<Rightarrow>
                   find_place env passed_mount mountinfo loop rate fm minfo st')))"

text \<open>
  Lines 2004 to 2025: what \<open>source_add_listener\<close> does with the place found.  A listener
  for whom a source has been found is attached to it; the boolean of the result tells
  whether it is processed at once (\<open>do_process\<close>).  The statistics are outside the
  model.
\<close>

definition attach_listener ::
  "add_env \<Rightarrow> admission \<times> global \<times> source_tree \<times> client_t \<Rightarrow>
   fault + admission \<times> bool \<times> global \<times> source_tree \<times> client_t"
where
  "attach_listener env found =
     (case found of
        (On_source m, g, tree, c) \<Rightarrow>
          (case (tree m, refbuf c) of
             (Some src, Some a) \<Rightarrow>
               (case mem g a of
                  None \<Rightarrow> Inl Bad_pointer
                | Some b \<Rightarrow>
                    (case source_setup_listener (a_worker env)
                            (g\<lparr>mem := (mem g)(a \<mapsto> b\<lparr>rb_len := PER_CLIENT_REFBUF_SIZE env\<rparr>)\<rparr>,
                             src, c\<lparr>con_sent_bytes := 0\<rparr>)
                     of (g1, src1, c1) \<Rightarrow>
                       if CLIENT_ACTIVE \<in> cl_flags c1 \<and> SOURCE_RUNNING \<in> flags src1
                       then Inr (On_source m, True, g1, tree(m \<mapsto> src1), c1)
                       else
                         (let c2 = c1\<lparr>cl_flags := cl_flags c1 \<union> {CLIENT_ACTIVE}\<rparr>
                          in Inr (On_source m, False, g1, tree(m \<mapsto> store_client c2 src1), c2))))
           | _ \<Rightarrow> Inl Bad_pointer)
      | (r, g, tree, c) \<Rightarrow> Inr (r, False, g, tree, c))"

text \<open>\<open>source_add_listener\<close>, lines 1868 to 2026, with \<open>loop = 10\<close> and \<open>rate = 0\<close>.\<close>

definition source_add_listener ::
  "add_env \<Rightarrow> string \<Rightarrow> mount_proxy option \<Rightarrow> global \<times> source_tree \<times> client_t \<Rightarrow>
   fault + admission \<times> bool \<times> global \<times> source_tree \<times> client_t"
where
  "source_add_listener env mnt mountinfo st =
     attach_listener env (find_place env mnt mountinfo 10 0 mnt mountinfo st)"


section \<open>Queue invariants\<close>

text \<open>
  \<open>chain m p as\<close>: following \<open>next\<close> from \<open>p\<close> visits exactly the blocks \<open>as\<close> and
  then reaches nil.  \<open>bytes m as\<close> is the sum of their lengths, \<open>count_at m a\<close> the
  reference count of the block at \<open>a\<close> (0 once it is destroyed).
\<close>

fun chain :: "memory \<Rightarrow> addr option \<Rightarrow> addr list \<Rightarrow> bool" where
  "chain m p [] = (p = None)"
| "chain m p (a # as) =
     (p = Some a \<and> (case m a of None \<Rightarrow> False | Some b \<Rightarrow> chain m (rb_next b) as))"

definition len_at :: "memory \<Rightarrow> addr \<Rightarrow> int" where
  "len_at m a = (case m a of None \<Rightarrow> 0 | Some b \<Rightarrow> rb_len b)"

definition bytes :: "memory \<Rightarrow> addr list \<Rightarrow> int" where
  "bytes m as = sum_list (map (len_at m) as)"

definition count_at :: "memory \<Rightarrow> addr \<Rightarrow> int" where
  "count_at m a = (case m a of None \<Rightarrow> 0 | Some b \<Rightarrow> rb_count b)"

text \<open>
  The burst window of a source (section 3 of the specification): the blocks \<open>ys\<close> from
  \<open>min_queue_point\<close> to the tail are linked without repetition, \<open>min_queue_offset\<close> is
  the number of bytes in them, each of them is held by the queue and by the burst
  retention, and the tail once more by the source.
\<close>

definition burst_wf :: "global \<Rightarrow> source_t \<Rightarrow> addr list \<Rightarrow> bool" where
  "burst_wf g s ys \<longleftrightarrow>
     ys \<noteq> [] \<and> distinct ys \<and> chain (mem g) (min_queue_point s) ys \<and>
     stream_data_tail s = Some (last ys) \<and>
     min_queue_offset s = bytes (mem g) ys \<and>
     (\<forall>a\<in>set ys. 2 \<le> count_at (mem g) a) \<and> 3 \<le> count_at (mem g) (last ys)"

section \<open>Sample states\<close>

definition block :: "int \<Rightarrow> refbuf_flag set \<Rightarrow> addr option \<Rightarrow> int \<Rightarrow> refbuf_t" where
  "block n fl nx c = \<lparr>rb_len = n, rb_flags = fl, rb_next = nx, rb_count = c\<rparr>"

text \<open>
  Two queued blocks of 100 bytes at addresses 0 and 1, both in the burst window, and a
  block at address 2 as \<open>get_buffer\<close> returns it.
\<close>

definition two_blocks :: global where
  "two_blocks =
     \<lparr>mem = [0 \<mapsto> block 100 {SOURCE_QUEUE_BLOCK, SOURCE_BLOCK_SYNC} (Some 1) 2,
              1 \<mapsto> block 100 {SOURCE_QUEUE_BLOCK} None 3,
              2 \<mapsto> block 100 {SOURCE_BLOCK_SYNC} None 1],
      brk = 3, trace = []\<rparr>"

definition two_block_source :: source_t where
  "two_block_source =
     (new_source ''/live'')
       \<lparr>flags := {SOURCE_RUNNING}, min_queue_size := 250, queue_size_limit := 1000,
         queue_size := 200, min_queue_offset := 200, stream_data := Some 0,
         stream_data_tail := Some 1, min_queue_point := Some 0\<rparr>"

text \<open>
  A queue of two blocks, of 100 and of 60 bytes, both in the burst window; the second is
  a sync point.  The source has sent 5000 bytes.
\<close>

definition sync_tail_blocks :: global where
  "sync_tail_blocks =
     \<lparr>mem = [0 \<mapsto> block 100 {SOURCE_QUEUE_BLOCK} (Some 1) 2,
              1 \<mapsto> block 60 {SOURCE_QUEUE_BLOCK, SOURCE_BLOCK_SYNC} None 3],
      brk = 2, trace = []\<rparr>"

definition sync_tail_source :: source_t where
  "sync_tail_source =
     (new_source ''/live'')
       \<lparr>flags := {SOURCE_RUNNING}, min_queue_size := 250, queue_size_limit := 1000,
         queue_size := 160, min_queue_offset := 160, stream_data := Some 0,
         stream_data_tail := Some 1, min_queue_point := Some 0,
         client := zero_client\<lparr>queue_pos := 5000\<rparr>\<rparr>"

text \<open>
  A pass of the source client at 3000 ms on which the socket has nothing to read, and a
  source that has waited since 1000 ms for two listeners to acknowledge the
  synchronisation.
\<close>

definition idle_env :: read_env where
  "idle_env =
     \<lparr>global_running = True, read_worker = \<lparr>time_ms = 3000, current_time = 3\<rparr>,
      global_sources = 1, in_rate = 16000, change_worker = False, fds = 0,
      recoverable = True, get_buffer = (\<lambda>k. No_block False),
      grow = (\<lambda>x. x * 13 div 10), shrink = (\<lambda>x. x * 9 div 10)\<rparr>"

definition syncing_source :: source_t where
  "syncing_source =
     (new_source ''/live'')
       \<lparr>flags := {SOURCE_RUNNING, SOURCE_LISTENERS_SYNC}, termination_count := 2,
         listeners := 2,
         clients := [zero_client\<lparr>con_id := 7\<rparr>, zero_client\<lparr>con_id := 9\<rparr>],
         client := zero_client\<lparr>timer_start := 1000\<rparr>\<rparr>"

text \<open>
  A source that is terminating, no longer running, with one listener that is due at
  500 ms, and the log line with which \<open>source_shutdown\<close> begins.
\<close>

definition terminating_source :: source_t where
  "terminating_source =
     (new_source ''/live'')
       \<lparr>flags := {SOURCE_TERMINATING}, listeners := 1,
         clients := [zero_client\<lparr>con_id := 7, schedule_ms := 500\<rparr>],
         client := zero_client\<lparr>shared_data := Some ''/live''\<rparr>\<rparr>"

definition empty_global :: global where
  "empty_global = \<lparr>mem = Map.empty, brk = 0, trace = []\<rparr>"

definition exiting :: event where
  "exiting = Log INFO ''Source \"%s\" exiting''"

text \<open>
  A mount entry without limits, and a registry in which \<open>/b\<close> is running while \<open>/a\<close>,
  which is not, has \<open>/b\<close> as its fallback.
\<close>

definition plain_mount :: mount_proxy where
  "plain_mount =
     \<lparr>fallback_mount = None, fallback_when_full = False, max_listeners = - 1,
      max_bandwidth = - 1, mp_limit_rate = 0, max_listener_duration = 0,
      on_disconnect = None, auth = None\<rparr>"

definition running_b :: source_t where
  "running_b = (new_source ''/b'')\<lparr>flags := {SOURCE_RUNNING}\<rparr>"

definition b_tree :: source_tree where
  "b_tree = [''/b'' \<mapsto> running_b]"

definition a_to_b :: config where
  "a_to_b = [''/a'' \<mapsto> plain_mount\<lparr>fallback_mount := Some ''/b''\<rparr>]"

text \<open>
  A source whose burst size of 50 bytes is smaller than its blocks: before the first
  block of 100 bytes (at address 0, as \<open>get_buffer\<close> returns it) is appended, and after.
\<close>

definition fresh_global :: global where
  "fresh_global = \<lparr>mem = [0 \<mapsto> block 100 {SOURCE_BLOCK_SYNC} None 1], brk = 1, trace = []\<rparr>"

definition small_burst_source :: source_t where
  "small_burst_source =
     (new_source ''/live'')
       \<lparr>flags := {SOURCE_RUNNING}, min_queue_size := 50, default_burst_size := 50,
         queue_size_limit := 40050, client := zero_client\<lparr>queue_pos := 100\<rparr>\<rparr>"

definition one_block_global :: global where
  "one_block_global =
     \<lparr>mem = [0 \<mapsto> block 100 {SOURCE_BLOCK_SYNC, SOURCE_QUEUE_BLOCK} None 3], brk = 1,
      trace = []\<rparr>"

definition one_block_source :: source_t where
  "one_block_source =
     small_burst_source
       \<lparr>bytes_read_since_update := 100, stream_data := Some 0, stream_data_tail := Some 0,
         min_queue_point := Some 0, min_queue_offset := 100, queue_size := 100\<rparr>"

text \<open>
  A source whose burst point is a block that is no longer linked into the queue (the
  block at address 0, dropped from the head and still held by a listener), and a pass on
  which the socket delivers one block.
\<close>

definition stale_global :: global where
  "stale_global =
     \<lparr>mem = [0 \<mapsto> block 100 {SOURCE_QUEUE_BLOCK, SOURCE_BLOCK_RELEASE} None 1,
              1 \<mapsto> block 100 {SOURCE_QUEUE_BLOCK} None 3],
      brk = 2, trace = []\<rparr>"

definition stale_source :: source_t where
  "stale_source =
     (new_source ''/live'')
       \<lparr>flags := {SOURCE_RUNNING}, min_queue_size := 100, queue_size_limit := 40100,
         queue_size := 100, min_queue_offset := 200, stream_data := Some 1,
         stream_data_tail := Some 1, min_queue_point := Some 0\<rparr>"

text \<open>
  The same source with a burst point from which two blocks are linked, neither of them
  in the queue any more.
\<close>

definition detached_global :: global where
  "detached_global =
     \<lparr>mem = [0 \<mapsto> block 100 {SOURCE_QUEUE_BLOCK, SOURCE_BLOCK_RELEASE} (Some 3) 2,
              1 \<mapsto> block 100 {SOURCE_QUEUE_BLOCK} None 3,
              3 \<mapsto> block 100 {SOURCE_QUEUE_BLOCK, SOURCE_BLOCK_RELEASE} None 1,
              4 \<mapsto> block 100 {SOURCE_BLOCK_SYNC} None 1],
      brk = 5, trace = []\<rparr>"

definition data_env :: read_env where
  "data_env =
     idle_env\<lparr>fds := 1,
       get_buffer := (\<lambda>k. if k = 0 then Block 100 {SOURCE_BLOCK_SYNC} else No_block False)\<rparr>"

text \<open>
  The queue of a source: the blocks \<open>xs\<close> from \<open>stream_data\<close> to the end are linked
  without repetition and \<open>queue_size\<close> is the number of bytes in them.  \<open>dropped b\<close> is
  what is left of a block \<open>b\<close> that has been unlinked, marked for release and released
  once.
\<close>

definition queue_wf :: "global \<Rightarrow> source_t \<Rightarrow> addr list \<Rightarrow> bool" where
  "queue_wf g s xs \<longleftrightarrow>
     distinct xs \<and> chain (mem g) (stream_data s) xs \<and> queue_size s = bytes (mem g) xs \<and>
     0 \<le> queue_size_limit s"

definition dropped :: "refbuf_t \<Rightarrow> refbuf_t option" where
  "dropped b =
     (if rb_count b = 1 then None
      else Some (b\<lparr>rb_next := None, rb_flags := rb_flags b \<union> {SOURCE_BLOCK_RELEASE},
                   rb_count := rb_count b - 1\<rparr>))"

text \<open>What the trim loop of \<open>source_read\<close> does to the block at the head, lines 570 to 573.\<close>

definition drop_block :: "addr \<Rightarrow> global \<Rightarrow> global" where
  "drop_block a g =
     (case mem g a of
        None \<Rightarrow> g
      | Some b \<Rightarrow>
          refbuf_release a
            (g\<lparr>mem := (mem g)(a \<mapsto> b\<lparr>rb_next := None,
                     rb_flags := rb_flags b \<union> {SOURCE_BLOCK_RELEASE}\<rparr>)\<rparr>))"

text \<open>
  A queue of two blocks over its limit of 150 bytes, whose head is held by the queue
  alone.
\<close>

definition lagging_global :: global where
  "lagging_global =
     \<lparr>mem = [0 \<mapsto> block 100 {SOURCE_QUEUE_BLOCK, SOURCE_BLOCK_SYNC} (Some 1) 1,
              1 \<mapsto> block 100 {SOURCE_QUEUE_BLOCK} None 3],
      brk = 2, trace = []\<rparr>"

definition lagging_source :: source_t where
  "lagging_source =
     (new_source ''/live'')
       \<lparr>flags := {SOURCE_RUNNING}, min_queue_size := 100, queue_size_limit := 150,
         queue_size := 200, min_queue_offset := 100, stream_data := Some 0,
         stream_data_tail := Some 1, min_queue_point := Some 1, timeout := 10,
         last_read := 3, skip_duration := 80, client_stats_update := 5,
         worker_balance_recheck := 20\<rparr>"

text \<open>\<open>is_sync m a\<close>: the block at \<open>a\<close> is flagged as a sync point.\<close>

definition is_sync :: "memory \<Rightarrow> addr \<Rightarrow> bool" where
  "is_sync m a = (case m a of None \<Rightarrow> False | Some b \<Rightarrow> SOURCE_BLOCK_SYNC \<in> rb_flags b)"








text \<open>
  The test of lines 1969 to 1988 for a listener who has passed the duplicate check:
  whether the bandwidth limit and the listener limit of the mount leave room for one
  more listener on the source.
\<close>

definition has_room :: "add_env \<Rightarrow> mount_proxy \<Rightarrow> string \<Rightarrow> source_t \<Rightarrow> bool" where
  "has_room env mi mnt src =
     (let stream_bitrate = (if has_format env mnt then stream_rate env mnt else 0)
      in \<not> (max_bandwidth mi > - 1 \<and> stream_bitrate \<noteq> 0 \<and>
              ((listeners src + 1) * stream_bitrate) mod 2 ^ 64 > max_bandwidth mi mod 2 ^ 64) \<and>
         (max_listeners mi = - 1 \<or> listeners src < max_listeners mi mod 2 ^ 64))"

text \<open>
  A mount that admits one listener, refuses duplicate logins and drops the earlier
  login; its source, with the listener alice attached; and alice connecting again.
\<close>

definition strict_mount :: mount_proxy where
  "strict_mount =
     plain_mount\<lparr>max_listeners := 1,
       auth := Some \<lparr>allow_duplicate_users = False, drop_existing_listener = True\<rparr>\<rparr>"

definition alice :: "nat \<Rightarrow> client_t" where
  "alice n = zero_client\<lparr>con_id := n, username := Some ''alice'', refbuf := Some n\<rparr>"

definition live_source :: source_t where
  "live_source =
     (new_source ''/live'')\<lparr>flags := {SOURCE_RUNNING}, listeners := 1, clients := [alice 7]\<rparr>"

definition live_tree :: source_tree where
  "live_tree = [''/live'' \<mapsto> live_source]"

definition add_now :: add_env where
  "add_now =
     \<lparr>a_config = [''/live'' \<mapsto> strict_mount], a_max_bandwidth = 0,
      has_format = (\<lambda>m. True), stream_rate = (\<lambda>m. 128000), a_global_rate = 0, file_fallback = (\<lambda>m r. False),
      bracket_rate = (\<lambda>m. None), a_time = 1000, a_worker = \<lparr>time_ms = 3000, current_time = 3\<rparr>,
      PER_CLIENT_REFBUF_SIZE = 4096\<rparr>"

text \<open>
  The same mount with \<open>/b\<close> as its fallback for a full stream, and the tree with a
  running source on \<open>/b\<close> as well.
\<close>

definition spill_mount :: mount_proxy where
  "spill_mount = strict_mount\<lparr>fallback_mount := Some ''/b'', fallback_when_full := True\<rparr>"

definition two_tree :: source_tree where
  "two_tree = live_tree(''/b'' \<mapsto> running_b)"

definition response_buffers :: global where
  "response_buffers =
     \<lparr>mem = [7 \<mapsto> block 4096 {} None 1, 9 \<mapsto> block 4096 {} None 1], brk = 10, trace = []\<rparr>"

section \<open>The burst window under append\<close>

lemma chain_cong:
  "\<forall>a\<in>set as. map_option rb_next (m' a) = map_option rb_next (m a) \<Longrightarrow>
   chain m' p as = chain m p as"
proof (induction as arbitrary: p)
  case Nil
  then show ?case by simp
next
  case (Cons a as)
  then show ?case
    by (cases "m a"; cases "m' a"; auto)
qed

lemma bytes_cong:
  "\<forall>a\<in>set as. map_option rb_len (m' a) = map_option rb_len (m a) \<Longrightarrow>
   bytes m' as = bytes m as"
  unfolding bytes_def
  by (rule arg_cong[where f=sum_list], rule map_cong, simp)
     (auto simp: len_at_def split: option.splits)

lemma chain_snoc:
  "chain m p ys \<Longrightarrow> ys \<noteq> [] \<Longrightarrow> distinct ys \<Longrightarrow> r \<notin> set ys \<Longrightarrow>
   m r = Some b \<Longrightarrow> rb_next b = None \<Longrightarrow> m (last ys) = Some tb \<Longrightarrow>
   chain (m(last ys \<mapsto> tb\<lparr>rb_next := Some r\<rparr>)) p (ys @ [r])"
proof (induction ys arbitrary: p)
  case Nil
  then show ?case by simp
next
  case (Cons a as)
  show ?case
  proof (cases "as = []")
    case True
    with Cons.prems show ?thesis by (auto split: option.splits)
  next
    case False
    with Cons.prems have "a \<noteq> last as" by auto
    with Cons False show ?thesis by (auto split: option.splits)
  qed
qed


lemma mem_refbuf_release_other: "x \<noteq> a \<Longrightarrow> mem (refbuf_release a g) x = mem g x"
  by (simp add: refbuf_release_def split: option.splits)

lemma mem_refbuf_addref_other: "x \<noteq> a \<Longrightarrow> mem (refbuf_addref a g) x = mem g x"
  by (simp add: refbuf_addref_def split: option.splits)

lemma chain_release_other:
  assumes "a \<notin> set as"
  shows "chain (mem (refbuf_release a g)) p as = chain (mem g) p as"
proof (rule chain_cong, rule ballI)
  fix x assume "x \<in> set as"
  with assms have "x \<noteq> a" by auto
  then show "map_option rb_next (mem (refbuf_release a g) x) = map_option rb_next (mem g x)"
    by (simp add: mem_refbuf_release_other)
qed

lemma bytes_release_other:
  assumes "a \<notin> set as"
  shows "bytes (mem (refbuf_release a g)) as = bytes (mem g) as"
proof (rule bytes_cong, rule ballI)
  fix x assume "x \<in> set as"
  with assms have "x \<noteq> a" by auto
  then show "map_option rb_len (mem (refbuf_release a g) x) = map_option rb_len (mem g x)"
    by (simp add: mem_refbuf_release_other)
qed

lemma chain_next_hd:
  "chain m p (a # as) \<Longrightarrow> as \<noteq> [] \<Longrightarrow> \<exists>b. m a = Some b \<and> rb_next b = Some (hd as)"
  by (cases as) (auto split: option.splits)

lemma chain_next_last:
  "chain m p [a] \<Longrightarrow> \<exists>b. m a = Some b \<and> rb_next b = None"
  by (auto split: option.splits)

lemma chain_tl:
  "chain m p (a # as) \<Longrightarrow> as \<noteq> [] \<Longrightarrow> chain m (Some (hd as)) as"
  by (cases as) (auto split: option.splits)

lemma move_burst_point_walk:
  "chain (mem g) (min_queue_point s) zs \<Longrightarrow> zs \<noteq> [] \<Longrightarrow> last zs = r \<Longrightarrow> distinct zs \<Longrightarrow>
   min_queue_offset s = bytes (mem g) zs \<Longrightarrow>
   \<exists>n. n < length zs \<and>
       move_burst_point r g s =
         Some (Inr (fold refbuf_release (take n zs) g,
                    s\<lparr>min_queue_offset := bytes (mem g) (drop n zs),
                      min_queue_point := Some (zs ! n)\<rparr>)) \<and>
       (\<forall>i<n. min_queue_size s < bytes (mem g) (drop i zs)) \<and>
       (bytes (mem g) (drop n zs) \<le> min_queue_size s \<or> Suc n = length zs)"
proof (induction zs arbitrary: g s)
  case Nil
  then show ?case by simp
next
  case (Cons a rest)
  have mqp: "min_queue_point s = Some a" using Cons.prems(1) by simp
  show ?case
  proof (cases "min_queue_offset s > min_queue_size s")
    case False
    have "move_burst_point r g s = Some (Inr (g, s))"
      using False by (subst move_burst_point.simps) simp
    moreover have "s\<lparr>min_queue_offset := bytes (mem g) (a # rest), min_queue_point := Some a\<rparr> = s"
      using mqp Cons.prems(5) by simp
    ultimately show ?thesis
      using False Cons.prems(5) by (intro exI[of _ 0]) simp
  next
    case True
    show ?thesis
    proof (cases "rest = []")
      case Nil: True
      then obtain b where b: "mem g a = Some b" "rb_next b = None"
        using Cons.prems(1) chain_next_last by blast
      have ar: "a = r" using Nil Cons.prems(3) by simp
      have "move_burst_point r g s = Some (Inr (g, s))"
        using True mqp b ar by (subst move_burst_point.simps) simp
      moreover have "s\<lparr>min_queue_offset := bytes (mem g) (a # rest), min_queue_point := Some a\<rparr> = s"
        using mqp Cons.prems(5) by simp
      ultimately show ?thesis
        using Nil by (intro exI[of _ 0]) simp
    next
      case False
      then obtain b where b: "mem g a = Some b" "rb_next b = Some (hd rest)"
        using Cons.prems(1) chain_next_hd by blast
      let ?g1 = "refbuf_release a g"
      let ?s1 = "s\<lparr>min_queue_offset := min_queue_offset s - rb_len b,
                    min_queue_point := Some (hd rest)\<rparr>"
      have notin: "a \<notin> set rest" using Cons.prems(4) by simp
      have step: "move_burst_point r g s = move_burst_point r ?g1 ?s1"
        using True mqp b by (subst move_burst_point.simps) simp
      have c1: "chain (mem ?g1) (min_queue_point ?s1) rest"
        using chain_tl[OF Cons.prems(1) False] notin by (simp add: chain_release_other)
      have len_a: "len_at (mem g) a = rb_len b" using b by (simp add: len_at_def)
      have o1: "min_queue_offset ?s1 = bytes (mem ?g1) rest"
        using Cons.prems(5) notin len_a by (simp add: bytes_release_other) (simp add: bytes_def)
      have l1: "last rest = r" using Cons.prems(3) False by simp
      have d1: "distinct rest" using Cons.prems(4) by simp
      from Cons.IH[OF c1 False l1 d1 o1] obtain n where
        n: "n < length rest"
        and run: "move_burst_point r ?g1 ?s1 =
           Some (Inr (fold refbuf_release (take n rest) ?g1,
                      ?s1\<lparr>min_queue_offset := bytes (mem ?g1) (drop n rest),
                        min_queue_point := Some (rest ! n)\<rparr>))"
        and before: "\<forall>i<n. min_queue_size ?s1 < bytes (mem ?g1) (drop i rest)"
        and stop: "bytes (mem ?g1) (drop n rest) \<le> min_queue_size ?s1 \<or> Suc n = length rest"
        by blast
      have same: "\<And>i. bytes (mem ?g1) (drop i rest) = bytes (mem g) (drop i rest)"
        using notin by (intro bytes_release_other) (auto dest: in_set_dropD)
      have "\<forall>i<Suc n. min_queue_size s < bytes (mem g) (drop i (a # rest))"
      proof (intro allI impI)
        fix i assume "i < Suc n"
        show "min_queue_size s < bytes (mem g) (drop i (a # rest))"
        proof (cases i)
          case 0
          then show ?thesis using True Cons.prems(5) by simp
        next
          case (Suc j)
          then show ?thesis using before \<open>i < Suc n\<close> same by simp
        qed
      qed
      then show ?thesis
        using n step run stop same by (intro exI[of _ "Suc n"]) simp
    qed
  qed
qed


lemma chain_last_mem:
  "chain m p ys \<Longrightarrow> ys \<noteq> [] \<Longrightarrow> \<exists>b. m (last ys) = Some b \<and> rb_next b = None"
proof (induction ys arbitrary: p)
  case Nil
  then show ?case by simp
next
  case (Cons a as)
  then show ?case by (cases "as = []") (auto split: option.splits)
qed

lemma chain_drop:
  "chain m p zs \<Longrightarrow> n < length zs \<Longrightarrow> chain m (Some (zs ! n)) (drop n zs)"
proof (induction zs arbitrary: p n)
  case Nil
  then show ?case by simp
next
  case (Cons a as)
  show ?case
  proof (cases n)
    case 0
    with Cons.prems show ?thesis by simp
  next
    case (Suc k)
    with Cons.prems have "k < length as" by simp
    moreover from Cons.prems obtain b where "m a = Some b" "chain m (rb_next b) as"
      by (auto split: option.splits)
    ultimately show ?thesis using Cons.IH Suc by simp
  qed
qed

lemma mem_fold_release_other:
  "x \<notin> set as \<Longrightarrow> mem (fold refbuf_release as g) x = mem g x"
  by (induction as arbitrary: g) (simp_all add: mem_refbuf_release_other)

lemma count_at_release_same:
  "mem g a \<noteq> None \<Longrightarrow> count_at (mem (refbuf_release a g)) a = count_at (mem g) a - 1"
  by (auto simp: count_at_def refbuf_release_def split: option.splits)

lemma count_at_fold_release:
  "distinct as \<Longrightarrow> x \<in> set as \<Longrightarrow> mem g x \<noteq> None \<Longrightarrow>
   count_at (mem (fold refbuf_release as g)) x = count_at (mem g) x - 1"
proof (induction as arbitrary: g)
  case Nil
  then show ?case by simp
next
  case (Cons a as)
  show ?case
  proof (cases "x = a")
    case True
    then have "x \<notin> set as" using Cons.prems by simp
    then have "mem (fold refbuf_release as (refbuf_release a g)) x = mem (refbuf_release a g) x"
      by (rule mem_fold_release_other)
    then have "count_at (mem (fold refbuf_release (a # as) g)) x =
               count_at (mem (refbuf_release a g)) x"
      by (simp add: count_at_def)
    then show ?thesis using True Cons.prems(3) by (simp add: count_at_release_same)
  next
    case False
    then have "x \<in> set as" "mem (refbuf_release a g) x \<noteq> None"
      using Cons.prems by (simp_all add: mem_refbuf_release_other)
    then show ?thesis using Cons.IH Cons.prems(1) False
      by (simp add: count_at_def mem_refbuf_release_other)
  qed
qed


lemma queue_append_prepare:
  assumes tail: "stream_data_tail s = Some t" and head: "stream_data s \<noteq> None"
    and r: "mem g r = Some b" and t: "mem g t = Some tb" and ne: "t \<noteq> r"
    and cnt: "rb_count tb \<noteq> 1"
  shows "\<exists>g3. queue_append r (g, s) =
           move_burst_point r g3
             (s\<lparr>bytes_read_since_update := bytes_read_since_update s + rb_len b,
                    flags := (if min_queue_offset s > min_queue_size s
                              then flags s - {SOURCE_RUNNING} else flags s),
                    stream_data_tail := Some r,
                    queue_size := queue_size s + rb_len b,
                    min_queue_offset := min_queue_offset s + rb_len b\<rparr>) \<and>
         (\<forall>x. mem g3 x =
            (if x = r then Some (b\<lparr>rb_flags := rb_flags b \<union> {SOURCE_QUEUE_BLOCK},
                                    rb_count := rb_count b + 2\<rparr>)
             else if x = t then Some (tb\<lparr>rb_next := Some r, rb_count := rb_count tb - 1\<rparr>)
             else mem g x)) \<and>
         trace g3 = trace g @ (if min_queue_offset s > min_queue_size s
                               then [Log ERROR ''queue oddity, stream %s, %d, %d''] else [])"
  using assms
  by (auto simp: queue_append_def link_tail_def Let_def refbuf_addref_def refbuf_release_def
      logmsg_def)


lemma bytes_append: "bytes m (xs @ ys) = bytes m xs + bytes m ys"
  by (simp add: bytes_def)

lemma bytes_len_eq:
  assumes "\<And>x. len_at m' x = len_at m x"
  shows "bytes m' as = bytes m as"
proof -
  have "len_at m' = len_at m" using assms by (intro ext)
  then show ?thesis by (simp add: bytes_def)
qed

lemma bytes_fold_release_other:
  assumes "set as \<inter> set bs = {}"
  shows "bytes (mem (fold refbuf_release as g)) bs = bytes (mem g) bs"
proof (rule bytes_cong, rule ballI)
  fix x assume "x \<in> set bs"
  with assms have "x \<notin> set as" by auto
  then show "map_option rb_len (mem (fold refbuf_release as g) x) = map_option rb_len (mem g x)"
    by (simp add: mem_fold_release_other)
qed

lemma chain_fold_release_other:
  assumes "set as \<inter> set bs = {}"
  shows "chain (mem (fold refbuf_release as g)) p bs = chain (mem g) p bs"
proof (rule chain_cong, rule ballI)
  fix x assume "x \<in> set bs"
  with assms have "x \<notin> set as" by auto
  then show "map_option rb_next (mem (fold refbuf_release as g) x) = map_option rb_next (mem g x)"
    by (simp add: mem_fold_release_other)
qed

text \<open>
  Claim C1.  \<open>source_read\<close> appends a block \<open>r\<close> returned by \<open>get_buffer\<close> to a
  queue that is not empty, whose burst window is \<open>ys\<close>.  The append returns; the loop
  that moves the burst point has run \<open>n\<close> times, each time with \<open>min_queue_offset\<close>
  above \<open>min_queue_size\<close> and a successor present, and stops when the offset is within
  the size or the burst point is the new tail \<open>r\<close>.  Every run subtracts the length of
  the old burst point from the offset, moves the point to its successor, and releases one
  reference of the old point (the block that was the tail has also lost the tail
  retention).  Afterwards \<open>min_queue_offset \<le> min_queue_size + len r\<close>, and the burst
  window is well formed again.
\<close>

theorem source_read_burst_advance:
  assumes wf: "burst_wf g s ys" and head: "stream_data s \<noteq> None"
    and r: "mem g r = Some b" "rb_next b = None" "r \<notin> set ys"
    and nonneg: "0 \<le> rb_len b" "1 \<le> rb_count b" "0 \<le> min_queue_size s"
  shows "\<exists>n g' s'. n \<le> length ys \<and> queue_append r (g, s) = Some (Inr (g', s')) \<and>
      (\<forall>i<n. min_queue_size s < bytes (mem g) (drop i ys) + rb_len b) \<and>
      (bytes (mem g) (drop n ys) + rb_len b \<le> min_queue_size s \<or> n = length ys) \<and>
      min_queue_point s' = Some ((ys @ [r]) ! n) \<and>
      min_queue_offset s' = bytes (mem g) (drop n ys) + rb_len b \<and>
      (\<forall>i<n. count_at (mem g') (ys ! i) =
               count_at (mem g) (ys ! i) - (if Suc i = length ys then 2 else 1)) \<and>
      min_queue_size s' = min_queue_size s \<and>
      stream_data_tail s' = Some r \<and>
      min_queue_offset s' \<le> min_queue_size s' + rb_len b \<and>
      burst_wf g' s' (drop n (ys @ [r]))"
proof -
  let ?t = "last ys"
  let ?zs = "ys @ [r]"
  from wf have ys: "ys \<noteq> []" "distinct ys" and ch: "chain (mem g) (min_queue_point s) ys"
    and tl: "stream_data_tail s = Some ?t" and off: "min_queue_offset s = bytes (mem g) ys"
    and c2: "\<forall>a\<in>set ys. 2 \<le> count_at (mem g) a" and c3: "3 \<le> count_at (mem g) ?t"
    by (simp_all add: burst_wf_def)
  from chain_last_mem[OF ch ys(1)] obtain tb where tb: "mem g ?t = Some tb" "rb_next tb = None"
    by blast
  have tin: "?t \<in> set ys" using ys(1) by simp
  then have tr: "?t \<noteq> r" using r(3) by auto
  have tcnt: "3 \<le> rb_count tb" using c3 tb by (simp add: count_at_def)
  then have "rb_count tb \<noteq> 1" by simp
  from queue_append_prepare[OF tl head r(1) tb(1) tr this] obtain g3 where
    run0: "queue_append r (g, s) =
           move_burst_point r g3
             (s\<lparr>bytes_read_since_update := bytes_read_since_update s + rb_len b,
                    flags := (if min_queue_offset s > min_queue_size s
                              then flags s - {SOURCE_RUNNING} else flags s),
                    stream_data_tail := Some r,
                    queue_size := queue_size s + rb_len b,
                    min_queue_offset := min_queue_offset s + rb_len b\<rparr>)"
      (is "_ = move_burst_point r g3 ?s5")
    and m3: "\<And>x. mem g3 x =
            (if x = r then Some (b\<lparr>rb_flags := rb_flags b \<union> {SOURCE_QUEUE_BLOCK},
                                    rb_count := rb_count b + 2\<rparr>)
             else if x = ?t then Some (tb\<lparr>rb_next := Some r, rb_count := rb_count tb - 1\<rparr>)
             else mem g x)"
    by blast
  have len3: "\<And>x. len_at (mem g3) x = len_at (mem g) x"
    using r(1) tb(1) by (simp add: len_at_def m3)
  have cnt3: "\<And>x. count_at (mem g3) x =
      (if x = r then rb_count b + 2 else if x = ?t then count_at (mem g) x - 1
       else count_at (mem g) x)"
    using tb(1) by (simp add: count_at_def m3)
  have some3: "\<And>x. x \<in> set ?zs \<Longrightarrow> mem g3 x \<noteq> None"
  proof -
    fix x assume "x \<in> set ?zs"
    moreover have "\<And>a. a \<in> set ys \<Longrightarrow> mem g a \<noteq> None"
      using c2 by (auto simp: count_at_def split: option.splits)
    ultimately show "mem g3 x \<noteq> None" by (auto simp: m3)
  qed
  have "chain ((mem g)(?t \<mapsto> tb\<lparr>rb_next := Some r\<rparr>)) (min_queue_point s) ?zs"
    by (rule chain_snoc[OF ch ys r(3) r(1) r(2) tb(1)])
  moreover have "\<forall>a\<in>set ?zs. map_option rb_next (mem g3 a) =
       map_option rb_next (((mem g)(?t \<mapsto> tb\<lparr>rb_next := Some r\<rparr>)) a)"
    using r(1) tr by (simp add: m3)
  ultimately have ch3: "chain (mem g3) (min_queue_point ?s5) ?zs"
    using chain_cong[of ?zs "mem g3" "(mem g)(?t \<mapsto> tb\<lparr>rb_next := Some r\<rparr>)"] by simp
  have lr: "len_at (mem g) r = rb_len b" using r(1) by (simp add: len_at_def)
  have by3: "\<And>as. bytes (mem g3) as = bytes (mem g) as"
    by (rule bytes_len_eq) (rule len3)
  have bzs: "\<And>k. k \<le> length ys \<Longrightarrow> bytes (mem g) (drop k ?zs) = bytes (mem g) (drop k ys) + rb_len b"
    using lr by (simp add: bytes_append) (simp add: bytes_def)
  have off5: "min_queue_offset ?s5 = bytes (mem g3) ?zs"
    using off bzs[of 0] by (simp add: by3)
  have dz: "distinct ?zs" using ys(2) r(3) by simp
  have zne: "?zs \<noteq> []" and zla: "last ?zs = r" by simp_all
  from move_burst_point_walk[OF ch3 zne zla dz off5] obtain n where
    n: "n < length ?zs"
    and run: "move_burst_point r g3 ?s5 =
         Some (Inr (fold refbuf_release (take n ?zs) g3,
                    ?s5\<lparr>min_queue_offset := bytes (mem g3) (drop n ?zs),
                      min_queue_point := Some (?zs ! n)\<rparr>))"
      (is "_ = Some (Inr (?g', ?s'))")
    and before: "\<forall>i<n. min_queue_size ?s5 < bytes (mem g3) (drop i ?zs)"
    and stop: "bytes (mem g3) (drop n ?zs) \<le> min_queue_size ?s5 \<or> Suc n = length ?zs"
    by blast
  have nle: "n \<le> length ys" using n by simp
  have p1: "\<forall>i<n. min_queue_size s < bytes (mem g) (drop i ys) + rb_len b"
    using before nle bzs by (simp add: by3)
  have p2: "bytes (mem g) (drop n ys) + rb_len b \<le> min_queue_size s \<or> n = length ys"
    using stop nle bzs by (auto simp: by3)
  have p3: "min_queue_offset ?s' = bytes (mem g) (drop n ys) + rb_len b"
    using nle bzs by (simp add: by3)
  have p4: "min_queue_offset ?s' \<le> min_queue_size ?s' + rb_len b"
  proof (cases "n = length ys")
    case True
    then show ?thesis using p3 nonneg(3) by (simp add: bytes_def)
  next
    case False
    with p2 p3 nonneg(1) show ?thesis by simp
  qed
  have disj: "set (take n ?zs) \<inter> set (drop n ?zs) = {}"
  proof -
    have "distinct (take n ?zs @ drop n ?zs)" using dz by (simp only: append_take_drop_id)
    then show ?thesis by (simp only: distinct_append)
  qed
  have p5: "\<forall>i<n. count_at (mem ?g') (ys ! i) =
               count_at (mem g) (ys ! i) - (if Suc i = length ys then 2 else 1)"
  proof (intro allI impI)
    fix i assume i: "i < n"
    then have il: "i < length ys" using nle by simp
    then have yi: "ys ! i \<in> set ys" by simp
    have e1: "take n ?zs ! i = ?zs ! i" using i by (rule nth_take)
    have e2: "?zs ! i = ys ! i" using il by (simp add: nth_append)
    have "i < length (take n ?zs)" using i n by simp
    then have "take n ?zs ! i \<in> set (take n ?zs)" by (rule nth_mem)
    then have mem_take: "ys ! i \<in> set (take n ?zs)" using e1 e2 by simp
    have "distinct (take n ?zs)" using dz by (rule distinct_take)
    from count_at_fold_release[OF this mem_take] some3[of "ys ! i"] yi
    have "count_at (mem ?g') (ys ! i) = count_at (mem g3) (ys ! i) - 1" by simp
    moreover have "ys ! i \<noteq> r" using yi r(3) by auto
    moreover have "(ys ! i = ?t) = (Suc i = length ys)"
    proof -
      have "?t = ys ! (length ys - 1)" using ys(1) by (rule last_conv_nth)
      moreover have "(ys ! i = ys ! (length ys - 1)) = (i = length ys - 1)"
        using ys(2) il by (simp add: nth_eq_iff_index_eq)
      ultimately show ?thesis using il by auto
    qed
    ultimately show "count_at (mem ?g') (ys ! i) =
               count_at (mem g) (ys ! i) - (if Suc i = length ys then 2 else 1)"
      by (simp add: cnt3)
  qed
  have keep: "\<And>x. x \<in> set (drop n ?zs) \<Longrightarrow> mem ?g' x = mem g3 x"
    using disj by (intro mem_fold_release_other) auto
  have wf': "burst_wf ?g' ?s' (drop n ?zs)"
    unfolding burst_wf_def
  proof (intro conjI)
    show "drop n ?zs \<noteq> []" using n by simp
    show "distinct (drop n ?zs)" using dz by (rule distinct_drop)
    have "chain (mem g3) (Some (?zs ! n)) (drop n ?zs)" by (rule chain_drop[OF ch3 n])
    then have "chain (mem ?g') (Some (?zs ! n)) (drop n ?zs)"
      by (simp only: chain_fold_release_other[OF disj])
    moreover have "min_queue_point ?s' = Some (?zs ! n)" by simp
    ultimately show "chain (mem ?g') (min_queue_point ?s') (drop n ?zs)"
      by (simp only:)
    show "stream_data_tail ?s' = Some (last (drop n ?zs))" using n by simp
    have "min_queue_offset ?s' = bytes (mem g3) (drop n ?zs)" by simp
    then show "min_queue_offset ?s' = bytes (mem ?g') (drop n ?zs)"
      by (simp only: bytes_fold_release_other[OF disj])
    have c2': "\<And>x. x \<in> set ?zs \<Longrightarrow> 2 \<le> count_at (mem g3) x"
      using c2 c3 nonneg(2) by (auto simp: cnt3)
    show "\<forall>a\<in>set (drop n ?zs). 2 \<le> count_at (mem ?g') a"
    proof
      fix a assume a: "a \<in> set (drop n ?zs)"
      then have "a \<in> set ?zs" by (rule in_set_dropD)
      with c2' keep[OF a] show "2 \<le> count_at (mem ?g') a" by (simp add: count_at_def)
    qed
    have "last (drop n ?zs) = r" using n by simp
    moreover have "drop n ?zs \<noteq> []" using n by simp
    ultimately have "r \<in> set (drop n ?zs)" using last_in_set by metis
    moreover note \<open>last (drop n ?zs) = r\<close>
    ultimately show "3 \<le> count_at (mem ?g') (last (drop n ?zs))"
      using keep[of r] nonneg(2) by (simp add: count_at_def m3)
  qed
  show ?thesis
    apply (rule exI[of _ n], rule exI[of _ ?g'], rule exI[of _ ?s'])
    using nle run0 run p1 p2 p3 p4 p5 wf' by simp
qed

theorem source_read_burst_advance_witness:
  "burst_wf two_blocks two_block_source [0, 1] \<and>
   stream_data two_block_source \<noteq> None \<and>
   mem two_blocks 2 = Some (block 100 {SOURCE_BLOCK_SYNC} None 1) \<and>
   (\<exists>n g' s'. n \<le> 2 \<and> queue_append 2 (two_blocks, two_block_source) = Some (Inr (g', s')) \<and>
      min_queue_point s' = Some ([0, 1, 2] ! n) \<and>
      min_queue_offset s' \<le> 250 + 100 \<and>
      burst_wf g' s' (drop n [0, 1, 2]))"
proof -
  have h1: "burst_wf two_blocks two_block_source [0, 1]"
    by (simp add: burst_wf_def two_blocks_def two_block_source_def new_source_def block_def
        bytes_def len_at_def count_at_def)
  have h2: "stream_data two_block_source \<noteq> None"
    by (simp add: two_block_source_def)
  have h3: "mem two_blocks 2 = Some (block 100 {SOURCE_BLOCK_SYNC} None 1)"
    by (simp add: two_blocks_def)
  have h4: "rb_next (block 100 {SOURCE_BLOCK_SYNC} None 1) = None"
      "0 \<le> rb_len (block 100 {SOURCE_BLOCK_SYNC} None 1)"
      "1 \<le> rb_count (block 100 {SOURCE_BLOCK_SYNC} None 1)"
    by (simp_all add: block_def)
  have h5: "(2::nat) \<notin> set [0, 1]" "0 \<le> min_queue_size two_block_source"
    by (simp_all add: two_block_source_def)
  have l: "rb_len (block 100 {SOURCE_BLOCK_SYNC} None 1) = 100"
      "min_queue_size two_block_source = 250"
    by (simp_all add: block_def two_block_source_def)
  from source_read_burst_advance[OF h1 h2 h3 h4(1) h5(1) h4(2) h4(3) h5(2)]
  obtain n g' s' where
    "n \<le> length [0::nat, 1]" "queue_append 2 (two_blocks, two_block_source) = Some (Inr (g', s'))"
    "min_queue_point s' = Some (([0, 1] @ [2]) ! n)"
    "min_queue_size s' = min_queue_size two_block_source"
    "min_queue_offset s' \<le> min_queue_size s' + rb_len (block 100 {SOURCE_BLOCK_SYNC} None 1)"
    "burst_wf g' s' (drop n ([0, 1] @ [2]))"
    by blast
  then have "\<exists>n g' s'. n \<le> 2 \<and> queue_append 2 (two_blocks, two_block_source) = Some (Inr (g', s')) \<and>
      min_queue_point s' = Some ([0, 1, 2] ! n) \<and>
      min_queue_offset s' \<le> 250 + 100 \<and>
      burst_wf g' s' (drop n [0, 1, 2])"
    using l by (intro exI[of _ n] exI[of _ g'] exI[of _ s']) simp
  with h1 h2 h3 show ?thesis by blast
qed


section \<open>A first block larger than the burst size\<close>

lemma one_block_reached:
  "queue_append 0 (fresh_global, small_burst_source) = Some (Inr (one_block_global, one_block_source))"
  by (simp add: queue_append_def link_tail_def fresh_global_def small_burst_source_def
      one_block_global_def one_block_source_def new_source_def block_def Let_def
      refbuf_addref_def move_burst_point.simps insert_commute)

lemma trace_refbuf_release [simp]: "trace (refbuf_release a g) = trace g"
  by (simp add: refbuf_release_def split: option.splits)

lemma trace_fold_release [simp]: "trace (fold refbuf_release as g) = trace g"
  by (induction as arbitrary: g) simp_all


section \<open>Trimming the queue\<close>

text \<open>
  Claim C2 places the trim loop at the end of every pass of \<open>source_read\<close>.  The loop
  is inside the block that the pass leaves early when the socket has nothing to read (or
  fails); on such a pass nothing is trimmed.  Below, the pass returns with the head still
  on the queue although the queue alone holds it, the queue is over its limit, and the
  head is not the tail.
\<close>

theorem source_read_no_trim_counterexample:
  "source_read idle_env (lagging_global, lagging_source) =
     Some (Inr (0, lagging_global,
                lagging_source\<lparr>skip_duration := 104, client := zero_client\<lparr>schedule_ms := 3111\<rparr>\<rparr>)) \<and>
   stream_data (lagging_source\<lparr>skip_duration := 104, client := zero_client\<lparr>schedule_ms := 3111\<rparr>\<rparr>)
     = Some 0 \<and>
   stream_data_tail (lagging_source\<lparr>skip_duration := 104, client := zero_client\<lparr>schedule_ms := 3111\<rparr>\<rparr>)
     = Some 1 \<and>
   count_at (mem lagging_global) 0 = 1 \<and>
   queue_size (lagging_source\<lparr>skip_duration := 104, client := zero_client\<lparr>schedule_ms := 3111\<rparr>\<rparr>)
     = 200 \<and>
   queue_size_limit (lagging_source\<lparr>skip_duration := 104, client := zero_client\<lparr>schedule_ms := 3111\<rparr>\<rparr>)
     = 150"
  by (simp add: source_read_def source_read_sync_done_def source_read_counts_def
      source_read_data_def source_read_finish_def add_schedule_def
      update_source_stats_def logmsg_def idle_env_def lagging_global_def count_at_def
      lagging_source_def new_source_def zero_client_def block_def Let_def)

lemma mem_drop_block_other: "x \<noteq> a \<Longrightarrow> mem (drop_block a g) x = mem g x"
  by (simp add: drop_block_def refbuf_release_def split: option.splits)

lemma mem_drop_block_same: "mem (drop_block a g) a = Option.bind (mem g a) dropped"
  by (simp add: drop_block_def refbuf_release_def dropped_def split: option.splits)

lemma mem_fold_drop_other:
  "x \<notin> set as \<Longrightarrow> mem (fold drop_block as g) x = mem g x"
  by (induction as arbitrary: g) (simp_all add: mem_drop_block_other)

lemma mem_fold_drop_same:
  "distinct as \<Longrightarrow> x \<in> set as \<Longrightarrow> mem (fold drop_block as g) x = Option.bind (mem g x) dropped"
proof (induction as arbitrary: g)
  case Nil
  then show ?case by simp
next
  case (Cons a as)
  show ?case
  proof (cases "x = a")
    case True
    then have "x \<notin> set as" using Cons.prems by simp
    then show ?thesis using True by (simp add: mem_fold_drop_other mem_drop_block_same)
  next
    case False
    then show ?thesis using Cons by (simp add: mem_drop_block_other)
  qed
qed

lemma chain_mem_eq:
  assumes "\<And>x. x \<in> set as \<Longrightarrow> m' x = m x"
  shows "chain m' p as = chain m p as"
  by (rule chain_cong) (simp add: assms)

lemma bytes_mem_eq:
  assumes "\<And>x. x \<in> set as \<Longrightarrow> m' x = m x"
  shows "bytes m' as = bytes m as"
  by (rule bytes_cong) (simp add: assms)

lemma trim_queue_run:
  "distinct xs \<Longrightarrow> chain (mem g) (stream_data s) xs \<Longrightarrow> queue_size s = bytes (mem g) xs \<Longrightarrow>
   0 \<le> queue_size_limit s \<Longrightarrow>
   \<exists>k\<le>length xs.
      trim_queue g s =
        Some (Inr (fold drop_block (take k xs) g,
                   s\<lparr>stream_data := (if k < length xs then Some (xs ! k) else None),
                     queue_size := bytes (mem g) (drop k xs)\<rparr>)) \<and>
      (\<forall>i<k. queue_size_limit s < bytes (mem g) (drop i xs) \<or> count_at (mem g) (xs ! i) = 1) \<and>
      bytes (mem g) (drop k xs) \<le> queue_size_limit s \<and>
      (k < length xs \<longrightarrow> count_at (mem g) (xs ! k) \<noteq> 1)"
proof (induction xs arbitrary: g s)
  case Nil
  then have "stream_data s = None" "queue_size s = 0" by (simp_all add: bytes_def)
  moreover from this have "s\<lparr>stream_data := None, queue_size := 0\<rparr> = s" by simp
  ultimately show ?case
    using Nil.prems(4) by (subst trim_queue.simps) (simp add: bytes_def)
next
  case (Cons a rest)
  from Cons.prems(2) obtain b where hd: "stream_data s = Some a" and b: "mem g a = Some b"
    and ch: "chain (mem g) (rb_next b) rest"
    by (auto split: option.splits)
  have notin: "a \<notin> set rest" and dr: "distinct rest" using Cons.prems(1) by simp_all
  have ca: "count_at (mem g) a = rb_count b" and la: "len_at (mem g) a = rb_len b"
    using b by (simp_all add: count_at_def len_at_def)
  show ?case
  proof (cases "queue_size s > queue_size_limit s \<or> rb_count b = 1")
    case False
    have "trim_queue g s = Some (Inr (g, s))"
      using hd b False by (subst trim_queue.simps) simp
    moreover have "s\<lparr>stream_data := Some a, queue_size := bytes (mem g) (a # rest)\<rparr> = s"
      using hd Cons.prems(3) by simp
    ultimately show ?thesis
      using False Cons.prems(3) ca by (intro exI[of _ 0]) simp
  next
    case True
    let ?g1 = "drop_block a g"
    let ?s1 = "s\<lparr>stream_data := rb_next b, queue_size := queue_size s - rb_len b\<rparr>"
    have step: "trim_queue g s = trim_queue ?g1 ?s1"
      using hd b True by (subst trim_queue.simps) (simp add: drop_block_def)
    have same: "\<And>x. x \<in> set rest \<Longrightarrow> mem ?g1 x = mem g x"
      using notin by (intro mem_drop_block_other) auto
    have c1: "chain (mem ?g1) (stream_data ?s1) rest"
      using ch chain_mem_eq[of rest "mem ?g1" "mem g", OF same] by simp
    have bsame: "\<And>i. bytes (mem ?g1) (drop i rest) = bytes (mem g) (drop i rest)"
      by (rule bytes_mem_eq) (auto dest: in_set_dropD intro: same)
    have q1: "queue_size ?s1 = bytes (mem ?g1) rest"
      using Cons.prems(3) la bsame[of 0] by (simp add: bytes_def)
    have l1: "0 \<le> queue_size_limit ?s1" using Cons.prems(4) by simp
    from Cons.IH[OF dr c1 q1 l1] obtain k where
      k: "k \<le> length rest"
      and run: "trim_queue ?g1 ?s1 =
        Some (Inr (fold drop_block (take k rest) ?g1,
                   ?s1\<lparr>stream_data := (if k < length rest then Some (rest ! k) else None),
                     queue_size := bytes (mem ?g1) (drop k rest)\<rparr>))"
      and before: "\<forall>i<k. queue_size_limit ?s1 < bytes (mem ?g1) (drop i rest)
                        \<or> count_at (mem ?g1) (rest ! i) = 1"
      and stop: "bytes (mem ?g1) (drop k rest) \<le> queue_size_limit ?s1"
      and keep: "k < length rest \<longrightarrow> count_at (mem ?g1) (rest ! k) \<noteq> 1"
      by blast
    have csame: "\<And>i. i < length rest \<Longrightarrow> count_at (mem ?g1) (rest ! i) = count_at (mem g) (rest ! i)"
      using same by (simp add: count_at_def)
    have b2: "\<forall>i<Suc k. queue_size_limit s < bytes (mem g) (drop i (a # rest))
                        \<or> count_at (mem g) ((a # rest) ! i) = 1"
    proof (intro allI impI)
      fix i assume i: "i < Suc k"
      show "queue_size_limit s < bytes (mem g) (drop i (a # rest))
                        \<or> count_at (mem g) ((a # rest) ! i) = 1"
      proof (cases i)
        case 0
        then show ?thesis using True Cons.prems(3) ca by auto
      next
        case (Suc j)
        with i have j: "j < k" by simp
        with k have jl: "j < length rest" by simp
        from before j have "queue_size_limit ?s1 < bytes (mem ?g1) (drop j rest)
                        \<or> count_at (mem ?g1) (rest ! j) = 1" by blast
        then show ?thesis using Suc csame[OF jl] by (simp add: bsame)
      qed
    qed
    show ?thesis
      using k step run stop keep b2
      by (intro exI[of _ "Suc k"]) (simp add: bsame csame)
  qed
qed


text \<open>
  Claim C2, as amended.  On a pass of \<open>source_read\<close> that reaches the trim loop (the
  socket had data, after the read loop), the loop removes the head of the queue while
  \<open>queue_size\<close> is above \<open>queue_size_limit\<close> or the reference count of the head is 1;
  each removed head has its \<open>next\<close> cleared, is flagged \<open>SOURCE_BLOCK_RELEASE\<close> and
  loses one reference (\<open>dropped\<close>), and no other block changes.  The loop terminates,
  and then \<open>queue_size\<close> is at most \<open>queue_size_limit\<close>, the head that is left is held
  by more than the queue, and the queue is well formed.
\<close>

theorem trim_queue_postcondition:
  assumes "queue_wf g s xs"
  shows "\<exists>k g' s'. k \<le> length xs \<and> trim_queue g s = Some (Inr (g', s')) \<and>
     (\<forall>i<k. queue_size_limit s < bytes (mem g) (drop i xs) \<or> count_at (mem g) (xs ! i) = 1) \<and>
     (\<forall>i<k. mem g' (xs ! i) = Option.bind (mem g (xs ! i)) dropped) \<and>
     (\<forall>a. a \<notin> set (take k xs) \<longrightarrow> mem g' a = mem g a) \<and>
     stream_data s' = (if k < length xs then Some (xs ! k) else None) \<and>
     queue_size s' = bytes (mem g) (drop k xs) \<and>
     queue_size_limit s' = queue_size_limit s \<and>
     queue_size s' \<le> queue_size_limit s' \<and>
     (k < length xs \<longrightarrow> count_at (mem g') (xs ! k) \<noteq> 1) \<and>
     queue_wf g' s' (drop k xs)"
proof -
  from assms have d: "distinct xs" and ch: "chain (mem g) (stream_data s) xs"
    and q: "queue_size s = bytes (mem g) xs" and l: "0 \<le> queue_size_limit s"
    by (simp_all add: queue_wf_def)
  from trim_queue_run[OF d ch q l] obtain k where
    k: "k \<le> length xs"
    and run: "trim_queue g s =
        Some (Inr (fold drop_block (take k xs) g,
                   s\<lparr>stream_data := (if k < length xs then Some (xs ! k) else None),
                     queue_size := bytes (mem g) (drop k xs)\<rparr>))"
      (is "_ = Some (Inr (?g', ?s'))")
    and before: "\<forall>i<k. queue_size_limit s < bytes (mem g) (drop i xs)
                      \<or> count_at (mem g) (xs ! i) = 1"
    and stop: "bytes (mem g) (drop k xs) \<le> queue_size_limit s"
    and keep: "k < length xs \<longrightarrow> count_at (mem g) (xs ! k) \<noteq> 1"
    by blast
  have dt: "distinct (take k xs)" using d by (rule distinct_take)
  have disj: "set (take k xs) \<inter> set (drop k xs) = {}"
  proof -
    have "distinct (take k xs @ drop k xs)" using d by (simp only: append_take_drop_id)
    then show ?thesis by (simp only: distinct_append)
  qed
  have other: "\<And>a. a \<notin> set (take k xs) \<Longrightarrow> mem ?g' a = mem g a"
    by (rule mem_fold_drop_other)
  have kept: "\<And>a. a \<in> set (drop k xs) \<Longrightarrow> mem ?g' a = mem g a"
    using disj by (intro other) auto
  have p2: "\<forall>i<k. mem ?g' (xs ! i) = Option.bind (mem g (xs ! i)) dropped"
  proof (intro allI impI)
    fix i assume i: "i < k"
    then have "i < length (take k xs)" using k by simp
    then have "take k xs ! i \<in> set (take k xs)" by (rule nth_mem)
    moreover have "take k xs ! i = xs ! i" using i by (rule nth_take)
    ultimately have "xs ! i \<in> set (take k xs)" by simp
    then show "mem ?g' (xs ! i) = Option.bind (mem g (xs ! i)) dropped"
      by (rule mem_fold_drop_same[OF dt])
  qed
  have p5: "k < length xs \<longrightarrow> count_at (mem ?g') (xs ! k) \<noteq> 1"
  proof
    assume kl: "k < length xs"
    then have "xs ! k \<in> set (drop k xs)"
      by (metis Cons_nth_drop_Suc list.set_intros(1))
    from kept[OF this] keep kl show "count_at (mem ?g') (xs ! k) \<noteq> 1"
      by (simp add: count_at_def)
  qed
  have wf': "queue_wf ?g' ?s' (drop k xs)"
    unfolding queue_wf_def
  proof (intro conjI)
    show "distinct (drop k xs)" using d by (rule distinct_drop)
    have c0: "chain (mem g) (if k < length xs then Some (xs ! k) else None) (drop k xs)"
    proof (cases "k < length xs")
      case True
      then show ?thesis using chain_drop[OF ch True] by simp
    next
      case False
      then show ?thesis by simp
    qed
    have "chain (mem ?g') (if k < length xs then Some (xs ! k) else None) (drop k xs)"
      using c0 chain_mem_eq[of "drop k xs" "mem ?g'" "mem g", OF kept] by simp
    then show "chain (mem ?g') (stream_data ?s') (drop k xs)" by simp
    have "bytes (mem ?g') (drop k xs) = bytes (mem g) (drop k xs)"
      by (rule bytes_mem_eq) (rule kept)
    then show "queue_size ?s' = bytes (mem ?g') (drop k xs)" by simp
    show "0 \<le> queue_size_limit ?s'" using l by simp
  qed
  show ?thesis
    apply (rule exI[of _ k], rule exI[of _ ?g'], rule exI[of _ ?s'])
    using k run before stop p2 p5 other wf' by simp
qed

theorem trim_queue_postcondition_witness:
  "queue_wf lagging_global lagging_source [0, 1] \<and>
   (\<exists>k g' s'. k \<le> 2 \<and> trim_queue lagging_global lagging_source = Some (Inr (g', s')) \<and>
      queue_size s' \<le> 150 \<and> queue_wf g' s' (drop k [0, 1]))"
proof -
  have h: "queue_wf lagging_global lagging_source [0, 1]"
    by (simp add: queue_wf_def lagging_global_def lagging_source_def new_source_def block_def
        bytes_def len_at_def)
  have l: "queue_size_limit lagging_source = 150"
    by (simp add: lagging_source_def)
  from trim_queue_postcondition[OF h] obtain k g' s' where
    "k \<le> length [0::nat, 1]" "trim_queue lagging_global lagging_source = Some (Inr (g', s'))"
    "queue_size_limit s' = queue_size_limit lagging_source"
    "queue_size s' \<le> queue_size_limit s'" "queue_wf g' s' (drop k [0, 1])"
    by blast
  then have "\<exists>k g' s'. k \<le> 2 \<and> trim_queue lagging_global lagging_source = Some (Inr (g', s')) \<and>
      queue_size s' \<le> 150 \<and> queue_wf g' s' (drop k [0, 1])"
    using l by (intro exI[of _ k] exI[of _ g'] exI[of _ s']) simp
  with h show ?thesis by blast
qed


section \<open>The start of a listener on the queue\<close>

lemma bytes_Cons: "bytes m (a # as) = len_at m a + bytes m as"
  by (simp add: bytes_def)

lemma bytes_take_drop: "bytes m (take n as) + bytes m (drop n as) = bytes m as"
  by (metis append_take_drop_id bytes_append)

lemma burst_walk_chain:
  "chain m p ys \<Longrightarrow> ys \<noteq> [] \<Longrightarrow>
   \<exists>j<length ys. burst_walk m sz v lag p = Some (Inr (Some (ys ! j), lag - bytes m (take j ys)))"
proof (induction ys arbitrary: sz lag p)
  case Nil
  then show ?case by simp
next
  case (Cons a rest)
  from Cons.prems(1) obtain b where p: "p = Some a" and b: "m a = Some b"
    and ch: "chain m (rb_next b) rest"
    by (auto split: option.splits)
  show ?case
  proof (cases "sz > v \<and> rest \<noteq> []")
    case False
    have "rest = [] \<Longrightarrow> rb_next b = None" using ch by simp
    then have "burst_walk m sz v lag p = Some (Inr (Some a, lag))"
      using False p b by (subst burst_walk.simps) auto
    then show ?thesis by (intro exI[of _ 0]) (simp add: bytes_def)
  next
    case True
    then obtain n where n: "rb_next b = Some n" using ch by (cases rest) auto
    have step: "burst_walk m sz v lag p =
                burst_walk m ((sz - rb_len b) mod 2 ^ 64) v (lag - rb_len b) (Some n)"
      using True p b n by (subst burst_walk.simps) simp
    from Cons.IH[of "Some n" "(sz - rb_len b) mod 2 ^ 64" "lag - rb_len b"] ch n True
    obtain j where j: "j < length rest"
      and run: "burst_walk m ((sz - rb_len b) mod 2 ^ 64) v (lag - rb_len b) (Some n) =
                Some (Inr (Some (rest ! j), lag - rb_len b - bytes m (take j rest)))"
      by auto
    have "len_at m a = rb_len b" using b by (simp add: len_at_def)
    then show ?thesis
      using j step run by (intro exI[of _ "Suc j"]) (simp add: bytes_Cons)
  qed
qed

lemma find_sync_chain:
  "chain m p zs \<Longrightarrow>
   (\<exists>k<length zs. find_sync m lag p = Some (Inr (Some (zs ! k, lag - bytes m (take k zs)))) \<and>
       is_sync m (zs ! k) \<and> (\<forall>i<k. \<not> is_sync m (zs ! i))) \<or>
   (find_sync m lag p = Some (Inr None) \<and> (\<forall>i<length zs. \<not> is_sync m (zs ! i)))"
proof (induction zs arbitrary: lag p)
  case Nil
  then show ?case by (subst find_sync.simps) simp
next
  case (Cons a rest)
  from Cons.prems obtain b where p: "p = Some a" and b: "m a = Some b"
    and ch: "chain m (rb_next b) rest"
    by (auto split: option.splits)
  show ?case
  proof (cases "SOURCE_BLOCK_SYNC \<in> rb_flags b")
    case True
    then have "find_sync m lag p = Some (Inr (Some (a, lag)))"
      using p b by (subst find_sync.simps) simp
    moreover have "is_sync m a" using True b by (simp add: is_sync_def)
    ultimately show ?thesis
      by (intro disjI1 exI[of _ 0]) (simp add: bytes_def)
  next
    case False
    then have step: "find_sync m lag p = find_sync m (lag - rb_len b) (rb_next b)"
      using p b by (subst find_sync.simps) simp
    have na: "\<not> is_sync m a" using False b by (simp add: is_sync_def)
    have la: "len_at m a = rb_len b" using b by (simp add: len_at_def)
    from Cons.IH[OF ch, of "lag - rb_len b"] show ?thesis
    proof
      assume "\<exists>k<length rest. find_sync m (lag - rb_len b) (rb_next b) =
                 Some (Inr (Some (rest ! k, lag - rb_len b - bytes m (take k rest)))) \<and>
               is_sync m (rest ! k) \<and> (\<forall>i<k. \<not> is_sync m (rest ! i))"
      then obtain k where k: "k < length rest"
        and run: "find_sync m (lag - rb_len b) (rb_next b) =
                 Some (Inr (Some (rest ! k, lag - rb_len b - bytes m (take k rest))))"
        and sk: "is_sync m (rest ! k)" and nk: "\<forall>i<k. \<not> is_sync m (rest ! i)"
        by blast
      have "\<forall>i<Suc k. \<not> is_sync m ((a # rest) ! i)"
      proof (intro allI impI)
        fix i assume "i < Suc k"
        then show "\<not> is_sync m ((a # rest) ! i)" using na nk by (cases i) simp_all
      qed
      then show ?thesis
        using k step run sk la by (intro disjI1 exI[of _ "Suc k"]) (simp add: bytes_Cons)
    next
      assume r: "find_sync m (lag - rb_len b) (rb_next b) = Some (Inr None) \<and>
                (\<forall>i<length rest. \<not> is_sync m (rest ! i))"
      have "\<forall>i<length (a # rest). \<not> is_sync m ((a # rest) ! i)"
      proof (intro allI impI)
        fix i assume "i < length (a # rest)"
        then show "\<not> is_sync m ((a # rest) ! i)" using na r by (cases i) simp_all
      qed
      then show ?thesis using step r by (intro disjI2) simp
    qed
  qed
qed


lemma bytes_nonneg: "\<forall>a\<in>set as. 0 \<le> len_at m a \<Longrightarrow> 0 \<le> bytes m as"
  by (induction as) (simp_all add: bytes_def)

lemma bytes_drop_nonneg: "\<forall>a\<in>set as. 0 \<le> len_at m a \<Longrightarrow> 0 \<le> bytes m (drop n as)"
  by (rule bytes_nonneg) (auto dest: in_set_dropD)

lemma bytes_take_nonneg: "\<forall>a\<in>set as. 0 \<le> len_at m a \<Longrightarrow> 0 \<le> bytes m (take n as)"
  by (rule bytes_nonneg) (auto dest: in_set_takeD)

lemma burst_start_chain:
  assumes ch: "chain (mem g) (min_queue_point s) ys" and ne: "ys \<noteq> []"
    and off: "min_queue_offset s = bytes (mem g) ys"
    and nonneg: "\<forall>a\<in>set ys. 0 \<le> len_at (mem g) a"
  shows "\<exists>j<length ys. burst_start g s c = Some (Inr (g, Some (ys ! j), bytes (mem g) (drop j ys)))"
proof -
  let ?v = "((case burst_param c of
                  Some x \<Rightarrow> x
                | None \<Rightarrow> (case initial_burst c of Some x \<Rightarrow> x | None \<Rightarrow> default_burst_size s))
             - con_sent_bytes c) mod 2 ^ 64"
  from burst_walk_chain[OF ch ne, of "min_queue_size s mod 2 ^ 64" ?v "min_queue_offset s"]
  obtain j where j: "j < length ys"
    and run: "burst_walk (mem g) (min_queue_size s mod 2 ^ 64) ?v (min_queue_offset s)
                (min_queue_point s)
              = Some (Inr (Some (ys ! j), min_queue_offset s - bytes (mem g) (take j ys)))"
    by blast
  have lag: "min_queue_offset s - bytes (mem g) (take j ys) = bytes (mem g) (drop j ys)"
    using off bytes_take_drop[of "mem g" j ys] by simp
  have "0 \<le> bytes (mem g) (drop j ys)" using nonneg by (rule bytes_drop_nonneg)
  then have "burst_start g s c = Some (Inr (g, Some (ys ! j), bytes (mem g) (drop j ys)))"
    using run lag by (simp add: burst_start_def Let_def)
  with j show ?thesis by blast
qed

lemma chosen_point_chain:
  assumes ch: "chain (mem g) (min_queue_point s) ys" and ne: "ys \<noteq> []"
    and off: "min_queue_offset s = bytes (mem g) ys"
    and nonneg: "\<forall>a\<in>set ys. 0 \<le> len_at (mem g) a"
  shows "\<exists>j<length ys.
           chosen_point g s c (last ys) = Some (Inr (g, Some (ys ! j), bytes (mem g) (drop j ys)))"
proof (cases "con_sent_bytes c > min_queue_offset s \<and> is_sync (mem g) (last ys)")
  case True
  then obtain tb where tb: "mem g (last ys) = Some tb" "SOURCE_BLOCK_SYNC \<in> rb_flags tb"
    by (auto simp: is_sync_def split: option.splits)
  let ?j = "length ys - 1"
  have j: "?j < length ys" using ne by simp
  have yj: "ys ! ?j = last ys" using ne by (simp add: last_conv_nth)
  have "drop ?j ys = [last ys]"
    using ne by (metis append_butlast_last_id append_eq_conv_conj length_butlast)
  then have "bytes (mem g) (drop ?j ys) = rb_len tb"
    using tb by (simp add: bytes_def len_at_def)
  then have "chosen_point g s c (last ys) =
             Some (Inr (g, Some (ys ! ?j), bytes (mem g) (drop ?j ys)))"
    using True tb yj by (simp add: chosen_point_def)
  with j show ?thesis by blast
next
  case False
  then have "chosen_point g s c (last ys) = burst_start g s c"
    by (auto simp: chosen_point_def is_sync_def split: option.splits)
       (use chain_last_mem[OF ch ne] in auto)
  with burst_start_chain[OF ch ne off nonneg] show ?thesis by simp
qed


text \<open>
  Claim C3, as amended.  A listener without connection error calls
  \<open>locate_start_on_queue\<close> on a source whose burst window \<open>ys\<close> is linked up to the
  tail, with \<open>min_queue_offset\<close> the bytes in it.  The burst walk chooses a block
  \<open>ys ! j\<close> of the window.  If a block flagged \<open>SYNC_POINT\<close> is found from there on,
  the listener's refbuf is the first such block \<open>ys ! k\<close>, \<open>pos\<close> is 0, \<open>intro_offset\<close>
  is \<open>-1\<close> and \<open>queue_pos\<close> is the source's \<open>queue_pos\<close> minus \<open>lag\<close>, where \<open>lag\<close> is
  the number of bytes from that block to the tail and \<open>0 \<le> lag \<le> min_queue_offset\<close>;
  so \<open>lag\<close> is at most \<open>min_queue_size\<close> plus the length of the tail where
  \<open>min_queue_offset\<close> is, as \<open>source_read\<close> leaves it.  If none is found, the call
  returns \<open>-1\<close> with the listener rescheduled 150 ms later and nothing else changed.
\<close>

theorem locate_start_on_queue_sync:
  assumes ch: "chain (mem g) (min_queue_point s) ys" and ne: "ys \<noteq> []"
    and tl: "stream_data_tail s = Some (last ys)"
    and off: "min_queue_offset s = bytes (mem g) ys"
    and nonneg: "\<forall>a\<in>set ys. 0 \<le> len_at (mem g) a"
    and ok: "con_error c = 0"
  shows "\<exists>j<length ys.
     chosen_point g s c (last ys) = Some (Inr (g, Some (ys ! j), bytes (mem g) (drop j ys))) \<and>
     ((\<exists>k. j \<le> k \<and> k < length ys \<and> is_sync (mem g) (ys ! k) \<and>
           (\<forall>i. j \<le> i \<and> i < k \<longrightarrow> \<not> is_sync (mem g) (ys ! i)) \<and>
           locate_start_on_queue (g, s, c) =
             Some (Inr (0, fst (client_set_queue (Some (ys ! k)) (g, c)),
                        c\<lparr>refbuf := Some (ys ! k), pos := 0, intro_offset := - 1,
                          queue_pos := queue_pos (client s) - bytes (mem g) (drop k ys)\<rparr>)) \<and>
           0 \<le> bytes (mem g) (drop k ys) \<and> bytes (mem g) (drop k ys) \<le> min_queue_offset s \<and>
           (min_queue_offset s \<le> min_queue_size s + len_at (mem g) (last ys) \<longrightarrow>
              bytes (mem g) (drop k ys) \<le> min_queue_size s + len_at (mem g) (last ys)))
      \<or> ((\<forall>i. j \<le> i \<and> i < length ys \<longrightarrow> \<not> is_sync (mem g) (ys ! i)) \<and>
           locate_start_on_queue (g, s, c) =
             Some (Inr (- 1, g, c\<lparr>schedule_ms := schedule_ms c + 150\<rparr>))))"
proof -
  from chosen_point_chain[OF ch ne off nonneg, of c] obtain j where j: "j < length ys"
    and cp: "chosen_point g s c (last ys) =
             Some (Inr (g, Some (ys ! j), bytes (mem g) (drop j ys)))"
    by blast
  let ?zs = "drop j ys"
  let ?lag = "bytes (mem g) ?zs"
  have chz: "chain (mem g) (Some (ys ! j)) ?zs" by (rule chain_drop[OF ch j])
  have unfold: "locate_start_on_queue (g, s, c) =
      Option.bind (find_sync (mem g) ?lag (Some (ys ! j)))
        (\<lambda>res2. case res2 of
            Inl e \<Rightarrow> Some (Inl e)
          | Inr None \<Rightarrow> Some (Inr (- 1, g, c\<lparr>schedule_ms := schedule_ms c + 150\<rparr>))
          | Inr (Some (a, lag')) \<Rightarrow>
              (case client_set_queue (Some a) (g, c) of (g2, c1) \<Rightarrow>
                 Some (Inr (0, g2, c1\<lparr>intro_offset := - 1, pos := 0,
                                    queue_pos := queue_pos (client s) - lag'\<rparr>))))"
    using ok tl cp by (simp add: locate_start_on_queue_def)
  from find_sync_chain[OF chz, of ?lag] show ?thesis
  proof
    assume "\<exists>k<length ?zs. find_sync (mem g) ?lag (Some (ys ! j)) =
               Some (Inr (Some (?zs ! k, ?lag - bytes (mem g) (take k ?zs)))) \<and>
             is_sync (mem g) (?zs ! k) \<and> (\<forall>i<k. \<not> is_sync (mem g) (?zs ! i))"
    then obtain k' where k': "k' < length ?zs"
      and fs: "find_sync (mem g) ?lag (Some (ys ! j)) =
               Some (Inr (Some (?zs ! k', ?lag - bytes (mem g) (take k' ?zs))))"
      and sk: "is_sync (mem g) (?zs ! k')" and nk: "\<forall>i<k'. \<not> is_sync (mem g) (?zs ! i)"
      by blast
    let ?k = "j + k'"
    have kl: "?k < length ys" using k' by simp
    have zk: "?zs ! k' = ys ! ?k" using kl by simp
    have "drop k' ?zs = drop ?k ys" by (simp add: add.commute)
    then have lag': "?lag - bytes (mem g) (take k' ?zs) = bytes (mem g) (drop ?k ys)"
      using bytes_take_drop[of "mem g" k' ?zs] by simp
    have run: "locate_start_on_queue (g, s, c) =
             Some (Inr (0, fst (client_set_queue (Some (ys ! ?k)) (g, c)),
                        c\<lparr>refbuf := Some (ys ! ?k), pos := 0, intro_offset := - 1,
                          queue_pos := queue_pos (client s) - bytes (mem g) (drop ?k ys)\<rparr>))"
      using fs by (simp add: unfold zk lag' client_set_queue_def Let_def)
    have none: "\<forall>i. j \<le> i \<and> i < ?k \<longrightarrow> \<not> is_sync (mem g) (ys ! i)"
    proof (intro allI impI)
      fix i assume i: "j \<le> i \<and> i < ?k"
      then have "i - j < k'" by arith
      with nk have "\<not> is_sync (mem g) (?zs ! (i - j))" by blast
      moreover have "?zs ! (i - j) = ys ! i" using i kl by simp
      ultimately show "\<not> is_sync (mem g) (ys ! i)" by simp
    qed
    have lo: "0 \<le> bytes (mem g) (drop ?k ys)" using nonneg by (rule bytes_drop_nonneg)
    have "0 \<le> bytes (mem g) (take ?k ys)" using nonneg by (rule bytes_take_nonneg)
    then have hi: "bytes (mem g) (drop ?k ys) \<le> min_queue_offset s"
      using off bytes_take_drop[of "mem g" ?k ys] by simp
    have "\<exists>k. j \<le> k \<and> k < length ys \<and> is_sync (mem g) (ys ! k) \<and>
           (\<forall>i. j \<le> i \<and> i < k \<longrightarrow> \<not> is_sync (mem g) (ys ! i)) \<and>
           locate_start_on_queue (g, s, c) =
             Some (Inr (0, fst (client_set_queue (Some (ys ! k)) (g, c)),
                        c\<lparr>refbuf := Some (ys ! k), pos := 0, intro_offset := - 1,
                          queue_pos := queue_pos (client s) - bytes (mem g) (drop k ys)\<rparr>)) \<and>
           0 \<le> bytes (mem g) (drop k ys) \<and> bytes (mem g) (drop k ys) \<le> min_queue_offset s \<and>
           (min_queue_offset s \<le> min_queue_size s + len_at (mem g) (last ys) \<longrightarrow>
              bytes (mem g) (drop k ys) \<le> min_queue_size s + len_at (mem g) (last ys))"
      using kl sk zk none run lo hi by (intro exI[of _ ?k]) simp
    with j cp show ?thesis by blast
  next
    assume r: "find_sync (mem g) ?lag (Some (ys ! j)) = Some (Inr None) \<and>
             (\<forall>i<length ?zs. \<not> is_sync (mem g) (?zs ! i))"
    have none: "\<forall>i. j \<le> i \<and> i < length ys \<longrightarrow> \<not> is_sync (mem g) (ys ! i)"
    proof (intro allI impI)
      fix i assume i: "j \<le> i \<and> i < length ys"
      then have "i - j < length ?zs" by simp arith
      with r have "\<not> is_sync (mem g) (?zs ! (i - j))" by blast
      moreover have "?zs ! (i - j) = ys ! i" using i by simp
      ultimately show "\<not> is_sync (mem g) (ys ! i)" by simp
    qed
    have "locate_start_on_queue (g, s, c) =
             Some (Inr (- 1, g, c\<lparr>schedule_ms := schedule_ms c + 150\<rparr>))"
      using r by (simp add: unfold)
    with none j cp show ?thesis by blast
  qed
qed

text \<open>
  Claim C3 bounds the lag of a new listener by \<open>min_queue_size\<close>.  The lag is the
  number of bytes from the listener's first block to the tail, and the burst window can
  hold more than \<open>min_queue_size\<close> bytes when the burst point is the tail: after the
  first block of 100 bytes is appended to a source with \<open>min_queue_size = 50\<close>, a new
  listener starts on that block with \<open>queue_pos = 100 - 100\<close>, a lag of 100.
\<close>

theorem locate_start_lag_counterexample:
  "locate_start_on_queue (one_block_global, one_block_source, zero_client\<lparr>con_id := 7\<rparr>) =
     Some (Inr (0, refbuf_addref 0 one_block_global,
                zero_client\<lparr>con_id := 7, refbuf := Some 0, pos := 0, intro_offset := - 1,
                  queue_pos := 0\<rparr>)) \<and>
   queue_pos (client one_block_source) = 100 \<and>
   min_queue_size one_block_source = 50 \<and>
   queue_append 0 (fresh_global, small_burst_source) = Some (Inr (one_block_global, one_block_source))"
  using one_block_reached
  by (simp add: locate_start_on_queue_def chosen_point_def burst_start_def burst_walk.simps
      find_sync.simps client_set_queue_def one_block_global_def one_block_source_def
      small_burst_source_def new_source_def zero_client_def block_def Let_def)

text \<open>
  A new listener on the queue of two blocks starts on the second, the sync point, 60
  bytes behind the source.
\<close>

theorem locate_start_on_queue_sync_witness:
  "chain (mem sync_tail_blocks) (min_queue_point sync_tail_source) [0, 1] \<and>
   stream_data_tail sync_tail_source = Some (last [0, 1]) \<and>
   min_queue_offset sync_tail_source = bytes (mem sync_tail_blocks) [0, 1] \<and>
   con_error (zero_client\<lparr>con_id := 7\<rparr>) = 0 \<and>
   min_queue_offset sync_tail_source
     \<le> min_queue_size sync_tail_source + len_at (mem sync_tail_blocks) (last [0, 1]) \<and>
   locate_start_on_queue (sync_tail_blocks, sync_tail_source, zero_client\<lparr>con_id := 7\<rparr>) =
     Some (Inr (0, fst (client_set_queue (Some 1) (sync_tail_blocks, zero_client\<lparr>con_id := 7\<rparr>)),
                zero_client\<lparr>con_id := 7, refbuf := Some 1, pos := 0, intro_offset := - 1,
                  queue_pos := 5000 - 60\<rparr>)) \<and>
   bytes (mem sync_tail_blocks) (drop 1 [0, 1]) = 60 \<and>
   is_sync (mem sync_tail_blocks) 1 \<and> \<not> is_sync (mem sync_tail_blocks) 0"
proof -
  let ?c = "zero_client\<lparr>con_id := 7\<rparr>"
  have h: "chain (mem sync_tail_blocks) (min_queue_point sync_tail_source) [0, 1]"
      "[0::nat, 1] \<noteq> []" "stream_data_tail sync_tail_source = Some (last [0, 1])"
      "min_queue_offset sync_tail_source = bytes (mem sync_tail_blocks) [0, 1]"
      "\<forall>a\<in>set [0, 1]. 0 \<le> len_at (mem sync_tail_blocks) a"
      "con_error ?c = 0"
    by (simp_all add: sync_tail_blocks_def sync_tail_source_def new_source_def zero_client_def
        block_def bytes_def len_at_def)
  have b: "min_queue_offset sync_tail_source
      \<le> min_queue_size sync_tail_source + len_at (mem sync_tail_blocks) (last [0, 1])"
    by (simp add: sync_tail_blocks_def sync_tail_source_def new_source_def block_def len_at_def)
  have sy: "is_sync (mem sync_tail_blocks) 1" "\<not> is_sync (mem sync_tail_blocks) 0"
    by (simp_all add: is_sync_def sync_tail_blocks_def block_def)
  have l: "bytes (mem sync_tail_blocks) (drop 1 [0, 1]) = 60"
    by (simp add: bytes_def len_at_def sync_tail_blocks_def block_def)
  have q: "queue_pos (client sync_tail_source) = 5000"
    by (simp add: sync_tail_source_def zero_client_def)
  from locate_start_on_queue_sync[OF h] obtain j where j: "j < length [0::nat, 1]"
    and r: "(\<exists>k. j \<le> k \<and> k < length [0::nat, 1] \<and> is_sync (mem sync_tail_blocks) ([0, 1] ! k) \<and>
           locate_start_on_queue (sync_tail_blocks, sync_tail_source, ?c) =
             Some (Inr (0, fst (client_set_queue (Some ([0, 1] ! k)) (sync_tail_blocks, ?c)),
                        ?c\<lparr>refbuf := Some ([0, 1] ! k), pos := 0, intro_offset := - 1,
                          queue_pos := queue_pos (client sync_tail_source)
                            - bytes (mem sync_tail_blocks) (drop k [0, 1])\<rparr>)))
      \<or> (\<forall>i. j \<le> i \<and> i < length [0::nat, 1] \<longrightarrow> \<not> is_sync (mem sync_tail_blocks) ([0, 1] ! i))"
    by blast
  from r have "\<exists>k. k < length [0::nat, 1] \<and> is_sync (mem sync_tail_blocks) ([0, 1] ! k) \<and>
           locate_start_on_queue (sync_tail_blocks, sync_tail_source, ?c) =
             Some (Inr (0, fst (client_set_queue (Some ([0, 1] ! k)) (sync_tail_blocks, ?c)),
                        ?c\<lparr>refbuf := Some ([0, 1] ! k), pos := 0, intro_offset := - 1,
                          queue_pos := queue_pos (client sync_tail_source)
                            - bytes (mem sync_tail_blocks) (drop k [0, 1])\<rparr>))"
  proof
    assume "\<exists>k. j \<le> k \<and> k < length [0::nat, 1] \<and> is_sync (mem sync_tail_blocks) ([0, 1] ! k) \<and>
           locate_start_on_queue (sync_tail_blocks, sync_tail_source, ?c) =
             Some (Inr (0, fst (client_set_queue (Some ([0, 1] ! k)) (sync_tail_blocks, ?c)),
                        ?c\<lparr>refbuf := Some ([0, 1] ! k), pos := 0, intro_offset := - 1,
                          queue_pos := queue_pos (client sync_tail_source)
                            - bytes (mem sync_tail_blocks) (drop k [0, 1])\<rparr>))"
    then show ?thesis by blast
  next
    assume n: "\<forall>i. j \<le> i \<and> i < length [0::nat, 1] \<longrightarrow> \<not> is_sync (mem sync_tail_blocks) ([0, 1] ! i)"
    have "j \<le> 1 \<and> (1::nat) < length [0::nat, 1]" using j by simp
    with n have "\<not> is_sync (mem sync_tail_blocks) ([0, 1] ! 1)" by blast
    with sy(1) show ?thesis by simp
  qed
  then obtain k where k: "k < length [0::nat, 1]"
    and ks: "is_sync (mem sync_tail_blocks) ([0, 1] ! k)"
    and run: "locate_start_on_queue (sync_tail_blocks, sync_tail_source, ?c) =
             Some (Inr (0, fst (client_set_queue (Some ([0, 1] ! k)) (sync_tail_blocks, ?c)),
                        ?c\<lparr>refbuf := Some ([0, 1] ! k), pos := 0, intro_offset := - 1,
                          queue_pos := queue_pos (client sync_tail_source)
                            - bytes (mem sync_tail_blocks) (drop k [0, 1])\<rparr>))"
    by blast
  have "k = 0 \<or> k = 1" using k by auto
  then have k1: "k = 1" using ks sy(2) by auto
  have "locate_start_on_queue (sync_tail_blocks, sync_tail_source, ?c) =
     Some (Inr (0, fst (client_set_queue (Some 1) (sync_tail_blocks, ?c)),
                ?c\<lparr>refbuf := Some 1, pos := 0, intro_offset := - 1, queue_pos := 5000 - 60\<rparr>))"
    using run l q unfolding k1 by simp
  with h(1) h(3) h(4) h(6) b l sy show ?thesis by (intro conjI)
qed


section \<open>Queue oddities found while appending\<close>

text \<open>
  Claim C4 says that a queue invariant violation found by \<open>source_read\<close> never ends the
  process.  Where the loop that moves the burst point cannot proceed and the burst point
  is not the block just appended, the code calls \<open>abort()\<close>: on the source below, whose
  burst point is a block no longer linked into the queue, the pass that reads one block
  ends the process after the two error lines.
\<close>

theorem source_read_abort_counterexample:
  "source_read data_env (stale_global, stale_source) =
     Some (Inl (Process_abort [Log ERROR ''queue oddity, stream %s, %d, %d'',
                               Log ERROR ''weird state of min_queue point'']))"
  by (simp add: source_read_def source_read_sync_done_def source_read_counts_def
      source_read_data_def read_blocks.simps queue_append_def link_tail_def
      move_burst_point.simps refbuf_new_def refbuf_addref_def refbuf_release_def
      update_source_stats_def logmsg_def data_env_def idle_env_def stale_global_def
      stale_source_def new_source_def zero_client_def block_def Let_def)


lemma queue_append_odd:
  assumes wf: "burst_wf g s ys" and head: "stream_data s \<noteq> None"
    and r: "mem g r = Some b" "rb_next b = None" "r \<notin> set ys"
    and odd: "min_queue_size s < min_queue_offset s"
  shows "\<exists>g' s'. queue_append r (g, s) = Some (Inr (g', s')) \<and> SOURCE_RUNNING \<notin> flags s' \<and>
            stream_data_tail s' = Some r \<and> queue_size s' = queue_size s + rb_len b \<and>
            trace g' = trace g @ [Log ERROR ''queue oddity, stream %s, %d, %d'']"
proof -
  let ?t = "last ys"
  let ?zs = "ys @ [r]"
  from wf have ys: "ys \<noteq> []" "distinct ys" and ch: "chain (mem g) (min_queue_point s) ys"
    and tl: "stream_data_tail s = Some ?t" and off: "min_queue_offset s = bytes (mem g) ys"
    and c3: "3 \<le> count_at (mem g) ?t"
    by (simp_all add: burst_wf_def)
  from chain_last_mem[OF ch ys(1)] obtain tb where tb: "mem g ?t = Some tb" "rb_next tb = None"
    by blast
  have "?t \<in> set ys" using ys(1) by simp
  then have tr: "?t \<noteq> r" using r(3) by auto
  have "rb_count tb \<noteq> 1" using c3 tb by (simp add: count_at_def)
  from queue_append_prepare[OF tl head r(1) tb(1) tr this] odd obtain g3 where
    run0: "queue_append r (g, s) =
           move_burst_point r g3
             (s\<lparr>bytes_read_since_update := bytes_read_since_update s + rb_len b,
                    flags := flags s - {SOURCE_RUNNING},
                    stream_data_tail := Some r,
                    queue_size := queue_size s + rb_len b,
                    min_queue_offset := min_queue_offset s + rb_len b\<rparr>)"
      (is "_ = move_burst_point r g3 ?s5")
    and m3: "\<And>x. mem g3 x =
            (if x = r then Some (b\<lparr>rb_flags := rb_flags b \<union> {SOURCE_QUEUE_BLOCK},
                                    rb_count := rb_count b + 2\<rparr>)
             else if x = ?t then Some (tb\<lparr>rb_next := Some r, rb_count := rb_count tb - 1\<rparr>)
             else mem g x)"
    and t3: "trace g3 = trace g @ [Log ERROR ''queue oddity, stream %s, %d, %d'']"
    by auto
  have len3: "\<And>x. len_at (mem g3) x = len_at (mem g) x"
    using r(1) tb(1) by (simp add: len_at_def m3)
  have "chain ((mem g)(?t \<mapsto> tb\<lparr>rb_next := Some r\<rparr>)) (min_queue_point s) ?zs"
    by (rule chain_snoc[OF ch ys r(3) r(1) r(2) tb(1)])
  moreover have "\<forall>a\<in>set ?zs. map_option rb_next (mem g3 a) =
       map_option rb_next (((mem g)(?t \<mapsto> tb\<lparr>rb_next := Some r\<rparr>)) a)"
    using r(1) tr by (simp add: m3)
  ultimately have ch3: "chain (mem g3) (min_queue_point ?s5) ?zs"
    using chain_cong[of ?zs "mem g3" "(mem g)(?t \<mapsto> tb\<lparr>rb_next := Some r\<rparr>)"] by simp
  have lr: "len_at (mem g) r = rb_len b" using r(1) by (simp add: len_at_def)
  have by3: "\<And>as. bytes (mem g3) as = bytes (mem g) as"
    by (rule bytes_len_eq) (rule len3)
  have off5: "min_queue_offset ?s5 = bytes (mem g3) ?zs"
    using off lr by (simp add: by3 bytes_append) (simp add: bytes_def)
  have dz: "distinct ?zs" using ys(2) r(3) by simp
  have zne: "?zs \<noteq> []" and zla: "last ?zs = r" by simp_all
  from move_burst_point_walk[OF ch3 zne zla dz off5] obtain n where
    run: "move_burst_point r g3 ?s5 =
         Some (Inr (fold refbuf_release (take n ?zs) g3,
                    ?s5\<lparr>min_queue_offset := bytes (mem g3) (drop n ?zs),
                      min_queue_point := Some (?zs ! n)\<rparr>))"
    by blast
  show ?thesis
    using run0 run t3 by simp
qed

lemma len_at_release_other: "x \<noteq> a \<Longrightarrow> len_at (mem (refbuf_release a g)) x = len_at (mem g) x"
  by (simp add: len_at_def mem_refbuf_release_other)

lemma move_burst_point_stuck:
  "chain (mem g) (min_queue_point s) zs \<Longrightarrow> distinct zs \<Longrightarrow> r \<notin> set zs \<Longrightarrow>
   \<forall>a\<in>set zs. 0 \<le> len_at (mem g) a \<Longrightarrow>
   min_queue_size s < min_queue_offset s - bytes (mem g) (butlast zs) \<Longrightarrow>
   move_burst_point r g s =
     Some (Inl (Process_abort (trace g @ [Log ERROR ''weird state of min_queue point''])))"
proof (induction zs arbitrary: g s)
  case Nil
  then have "min_queue_point s = None" "min_queue_size s < min_queue_offset s"
    by (simp_all add: bytes_def)
  then show ?case by (subst move_burst_point.simps) (simp add: logmsg_def)
next
  case (Cons a rest)
  have mqp: "min_queue_point s = Some a" using Cons.prems(1) by simp
  have ar: "a \<noteq> r" using Cons.prems(3) by simp
  have "0 \<le> bytes (mem g) (butlast (a # rest))"
    using Cons.prems(4) by (intro bytes_nonneg) (auto dest: in_set_butlastD)
  then have over: "min_queue_size s < min_queue_offset s" using Cons.prems(5) by simp
  show ?case
  proof (cases "rest = []")
    case True
    then obtain b where b: "mem g a = Some b" "rb_next b = None"
      using Cons.prems(1) chain_next_last by blast
    show ?thesis
      using over mqp b ar by (subst move_burst_point.simps) (simp add: logmsg_def)
  next
    case False
    then obtain b where b: "mem g a = Some b" "rb_next b = Some (hd rest)"
      using Cons.prems(1) chain_next_hd by blast
    let ?g1 = "refbuf_release a g"
    let ?s1 = "s\<lparr>min_queue_offset := min_queue_offset s - rb_len b,
                  min_queue_point := Some (hd rest)\<rparr>"
    have notin: "a \<notin> set rest" using Cons.prems(2) by simp
    have step: "move_burst_point r g s = move_burst_point r ?g1 ?s1"
      using over mqp b by (subst move_burst_point.simps) simp
    have c1: "chain (mem ?g1) (min_queue_point ?s1) rest"
      using chain_tl[OF Cons.prems(1) False] notin by (simp add: chain_release_other)
    have d1: "distinct rest" and r1: "r \<notin> set rest"
      using Cons.prems(2) Cons.prems(3) by simp_all
    have n1: "\<forall>x\<in>set rest. 0 \<le> len_at (mem ?g1) x"
    proof
      fix x assume x: "x \<in> set rest"
      then have "x \<noteq> a" using notin by auto
      then show "0 \<le> len_at (mem ?g1) x"
        using Cons.prems(4) x by (simp add: len_at_release_other)
    qed
    have len_a: "len_at (mem g) a = rb_len b" using b by (simp add: len_at_def)
    have "a \<notin> set (butlast rest)" using notin by (auto dest: in_set_butlastD)
    then have same: "bytes (mem ?g1) (butlast rest) = bytes (mem g) (butlast rest)"
      by (rule bytes_release_other)
    have "bytes (mem g) (butlast (a # rest)) = rb_len b + bytes (mem g) (butlast rest)"
      using False len_a by (simp add: bytes_def)
    then have o1: "min_queue_size ?s1 < min_queue_offset ?s1 - bytes (mem ?g1) (butlast rest)"
      using Cons.prems(5) same by simp
    from Cons.IH[OF c1 d1 r1 n1 o1] step show ?thesis by simp
  qed
qed

lemma queue_append_link:
  assumes tail: "stream_data_tail s = Some t" and head: "stream_data s \<noteq> None"
    and r: "mem g r = Some b" and t: "mem g t = Some tb" and ne: "t \<noteq> r"
  shows "\<exists>g3. queue_append r (g, s) =
           move_burst_point r g3
             (s\<lparr>bytes_read_since_update := bytes_read_since_update s + rb_len b,
                    flags := (if min_queue_offset s > min_queue_size s
                              then flags s - {SOURCE_RUNNING} else flags s),
                    stream_data_tail := Some r,
                    queue_size := queue_size s + rb_len b,
                    min_queue_offset := min_queue_offset s + rb_len b\<rparr>) \<and>
         (\<forall>x. x \<noteq> r \<and> x \<noteq> t \<longrightarrow> mem g3 x = mem g x) \<and>
         trace g3 = trace g @ (if min_queue_offset s > min_queue_size s
                               then [Log ERROR ''queue oddity, stream %s, %d, %d''] else [])"
  using assms
  by (auto simp: queue_append_def link_tail_def Let_def refbuf_addref_def refbuf_release_def
      logmsg_def)

lemma queue_append_stale:
  assumes head: "stream_data s \<noteq> None" and tl: "stream_data_tail s = Some t"
    and t: "mem g t = Some tb" and r: "mem g r = Some b" "t \<noteq> r"
    and ch: "chain (mem g) (min_queue_point s) zs" "distinct zs" "r \<notin> set zs" "t \<notin> set zs"
    and nonneg: "\<forall>a\<in>set zs. 0 \<le> len_at (mem g) a"
    and over: "min_queue_size s < min_queue_offset s + rb_len b - bytes (mem g) (butlast zs)"
  shows "queue_append r (g, s) =
           Some (Inl (Process_abort
             (trace g @ (if min_queue_offset s > min_queue_size s
                         then [Log ERROR ''queue oddity, stream %s, %d, %d''] else [])
                      @ [Log ERROR ''weird state of min_queue point''])))"
proof -
  from queue_append_link[OF tl head r(1) t r(2)] obtain g3 where
    run0: "queue_append r (g, s) =
           move_burst_point r g3
             (s\<lparr>bytes_read_since_update := bytes_read_since_update s + rb_len b,
                    flags := (if min_queue_offset s > min_queue_size s
                              then flags s - {SOURCE_RUNNING} else flags s),
                    stream_data_tail := Some r,
                    queue_size := queue_size s + rb_len b,
                    min_queue_offset := min_queue_offset s + rb_len b\<rparr>)"
      (is "_ = move_burst_point r g3 ?s5")
    and m3: "\<forall>x. x \<noteq> r \<and> x \<noteq> t \<longrightarrow> mem g3 x = mem g x"
    and t3: "trace g3 = trace g @ (if min_queue_offset s > min_queue_size s
                               then [Log ERROR ''queue oddity, stream %s, %d, %d''] else [])"
    by blast
  have eq: "\<forall>x\<in>set zs. mem g3 x = mem g x" using m3 ch(3) ch(4) by auto
  have ch3: "chain (mem g3) (min_queue_point ?s5) zs"
    using ch(1) eq chain_cong[of zs "mem g3" "mem g"] by simp
  have n3: "\<forall>a\<in>set zs. 0 \<le> len_at (mem g3) a"
    using nonneg eq by (simp add: len_at_def)
  have "\<forall>a\<in>set (butlast zs). map_option rb_len (mem g3 a) = map_option rb_len (mem g a)"
    using eq by (auto dest: in_set_butlastD)
  then have "bytes (mem g3) (butlast zs) = bytes (mem g) (butlast zs)" by (rule bytes_cong)
  then have o3: "min_queue_size ?s5 < min_queue_offset ?s5 - bytes (mem g3) (butlast zs)"
    using over by simp
  from move_burst_point_stuck[OF ch3 ch(2) ch(3) n3 o3] run0 t3 show ?thesis by simp
qed

text \<open>
  Claim C4, as amended.  \<open>source_read\<close> appends a block \<open>r\<close> to a queue with a head and
  a tail.  If it finds \<open>min_queue_offset\<close> above \<open>min_queue_size\<close>, it logs the error
  "queue oddity" and clears \<open>RUNNING\<close>; where the burst window is intact (\<open>burst_wf\<close>),
  the append is carried out and the call returns, so the process goes on.  If the blocks
  \<open>zs\<close> linked from \<open>min_queue_point\<close> (none when it is nil) include neither the tail
  nor \<open>r\<close>, and \<open>min_queue_offset\<close> with the length of \<open>r\<close>, less the bytes in all of
  \<open>zs\<close> but the last, is above \<open>min_queue_size\<close>, the loop that moves the burst point
  comes to a burst point that has no successor and is not \<open>r\<close>: it logs the error "weird
  state of min_queue point" and calls \<open>abort()\<close>, and the process ends, after the line
  "queue oddity" where the offset was above the size before the append.
\<close>

theorem queue_violation_outcomes:
  "(burst_wf g s ys \<and> stream_data s \<noteq> None \<and> mem g r = Some b \<and> rb_next b = None \<and>
    r \<notin> set ys \<and> min_queue_size s < min_queue_offset s \<longrightarrow>
      (\<exists>g' s'. queue_append r (g, s) = Some (Inr (g', s')) \<and> SOURCE_RUNNING \<notin> flags s' \<and>
         stream_data_tail s' = Some r \<and> queue_size s' = queue_size s + rb_len b \<and>
         trace g' = trace g @ [Log ERROR ''queue oddity, stream %s, %d, %d''])) \<and>
   (stream_data s \<noteq> None \<and> stream_data_tail s = Some t \<and> mem g t = Some tb \<and>
    mem g r = Some b \<and> t \<noteq> r \<and>
    chain (mem g) (min_queue_point s) zs \<and> distinct zs \<and> r \<notin> set zs \<and> t \<notin> set zs \<and>
    (\<forall>a\<in>set zs. 0 \<le> len_at (mem g) a) \<and>
    min_queue_size s < min_queue_offset s + rb_len b - bytes (mem g) (butlast zs) \<longrightarrow>
      queue_append r (g, s) =
        Some (Inl (Process_abort
          (trace g @ (if min_queue_offset s > min_queue_size s
                      then [Log ERROR ''queue oddity, stream %s, %d, %d''] else [])
                   @ [Log ERROR ''weird state of min_queue point'']))))"
  using queue_append_odd[of g s ys r b] queue_append_stale[of s t g tb r b zs]
  by blast

text \<open>
  A block appended to the queue of one block whose burst window holds 100 bytes for a
  \<open>min_queue_size\<close> of 50; a block appended to the queue whose burst point is no longer
  linked into it; a block appended to that queue with a nil burst point; and a block
  appended when two blocks are linked from the burst point, outside the queue: the loop
  moves the burst point once before it ends the process.
\<close>

theorem queue_violation_outcomes_witness:
  "burst_wf (snd (refbuf_new 100 {} one_block_global)) one_block_source [0] \<and>
   min_queue_size one_block_source < min_queue_offset one_block_source \<and>
   (\<exists>g' s'. queue_append 1 (snd (refbuf_new 100 {} one_block_global), one_block_source)
        = Some (Inr (g', s')) \<and> SOURCE_RUNNING \<notin> flags s' \<and>
        stream_data_tail s' = Some 1 \<and> queue_size s' = 200 \<and>
        trace g' = [Log ERROR ''queue oddity, stream %s, %d, %d'']) \<and>
   chain (mem (snd (refbuf_new 100 {SOURCE_BLOCK_SYNC} stale_global)))
     (min_queue_point stale_source) [0] \<and>
   stream_data_tail stale_source = Some 1 \<and>
   queue_append 2 (snd (refbuf_new 100 {SOURCE_BLOCK_SYNC} stale_global), stale_source)
        = Some (Inl (Process_abort [Log ERROR ''queue oddity, stream %s, %d, %d'',
                                    Log ERROR ''weird state of min_queue point''])) \<and>
   queue_append 2 (snd (refbuf_new 100 {SOURCE_BLOCK_SYNC} stale_global),
                   stale_source\<lparr>min_queue_point := None, min_queue_offset := 50\<rparr>)
        = Some (Inl (Process_abort [Log ERROR ''weird state of min_queue point''])) \<and>
   chain (mem detached_global) (min_queue_point stale_source) [0, 3] \<and>
   queue_append 4 (detached_global, stale_source)
        = Some (Inl (Process_abort [Log ERROR ''queue oddity, stream %s, %d, %d'',
                                    Log ERROR ''weird state of min_queue point'']))"
proof -
  let ?g = "snd (refbuf_new 100 {} one_block_global)"
  let ?b = "block 100 {} None 1"
  have a1: "burst_wf ?g one_block_source [0]"
    by (simp add: burst_wf_def refbuf_new_def one_block_global_def one_block_source_def
        small_burst_source_def new_source_def block_def bytes_def len_at_def count_at_def)
  have a2: "stream_data one_block_source \<noteq> None" "mem ?g 1 = Some ?b" "rb_next ?b = None"
      "(1::nat) \<notin> set [0]" "min_queue_size one_block_source < min_queue_offset one_block_source"
    by (simp_all add: refbuf_new_def one_block_global_def one_block_source_def
        small_burst_source_def new_source_def block_def)
  have a3: "trace ?g = []" "queue_size one_block_source + rb_len ?b = 200"
    by (simp_all add: refbuf_new_def one_block_global_def one_block_source_def
        small_burst_source_def new_source_def block_def)
  let ?h = "snd (refbuf_new 100 {SOURCE_BLOCK_SYNC} stale_global)"
  let ?tb = "block 100 {SOURCE_QUEUE_BLOCK} None 3"
  let ?rb = "block 100 {SOURCE_BLOCK_SYNC} None 1"
  let ?nil = "stale_source\<lparr>min_queue_point := None, min_queue_offset := 50\<rparr>"
  have b1: "stream_data stale_source \<noteq> None" "stream_data_tail stale_source = Some 1"
      "mem ?h 1 = Some ?tb" "mem ?h 2 = Some ?rb" "(1::nat) \<noteq> 2"
      "chain (mem ?h) (min_queue_point stale_source) [0]" "distinct [0::nat]"
      "(2::nat) \<notin> set [0]" "(1::nat) \<notin> set [0]"
      "\<forall>a\<in>set [0]. 0 \<le> len_at (mem ?h) a"
      "min_queue_size stale_source
         < min_queue_offset stale_source + rb_len ?rb - bytes (mem ?h) (butlast [0])"
      "min_queue_offset stale_source > min_queue_size stale_source" "trace ?h = []"
    by (simp_all add: refbuf_new_def stale_global_def stale_source_def new_source_def block_def
        bytes_def len_at_def)
  have c1: "stream_data ?nil \<noteq> None" "stream_data_tail ?nil = Some 1"
      "chain (mem ?h) (min_queue_point ?nil) []" "distinct ([]::nat list)"
      "(2::nat) \<notin> set []" "(1::nat) \<notin> set []"
      "\<forall>a\<in>set ([]::nat list). 0 \<le> len_at (mem ?h) a"
      "min_queue_size ?nil < min_queue_offset ?nil + rb_len ?rb - bytes (mem ?h) (butlast [])"
      "\<not> min_queue_offset ?nil > min_queue_size ?nil"
    by (simp_all add: stale_source_def new_source_def block_def bytes_def)
  have A: "\<exists>g' s'. queue_append 1 (?g, one_block_source) = Some (Inr (g', s')) \<and>
        SOURCE_RUNNING \<notin> flags s' \<and> stream_data_tail s' = Some 1 \<and> queue_size s' = 200 \<and>
        trace g' = [Log ERROR ''queue oddity, stream %s, %d, %d'']"
    using queue_violation_outcomes[of ?g one_block_source "[0]" 1 ?b 1 ?tb "[]"] a1 a2 a3
    by simp
  have B: "queue_append 2 (?h, stale_source)
        = Some (Inl (Process_abort [Log ERROR ''queue oddity, stream %s, %d, %d'',
                                    Log ERROR ''weird state of min_queue point'']))"
    using queue_violation_outcomes[of ?h stale_source "[]" 2 ?rb 1 ?tb "[0]"] b1
    by simp
  have C: "queue_append 2 (?h, ?nil)
        = Some (Inl (Process_abort [Log ERROR ''weird state of min_queue point'']))"
    using queue_violation_outcomes[of ?h ?nil "[]" 2 ?rb 1 ?tb "[]"] b1(3,4,5,13) c1
    by simp
  have d1: "mem detached_global 1 = Some ?tb" "mem detached_global 4 = Some ?rb" "(1::nat) \<noteq> 4"
      "chain (mem detached_global) (min_queue_point stale_source) [0, 3]" "distinct [0::nat, 3]"
      "(4::nat) \<notin> set [0, 3]" "(1::nat) \<notin> set [0, 3]"
      "\<forall>a\<in>set [0, 3]. 0 \<le> len_at (mem detached_global) a"
      "min_queue_size stale_source
         < min_queue_offset stale_source + rb_len ?rb - bytes (mem detached_global) (butlast [0, 3])"
      "trace detached_global = []"
    by (simp_all add: detached_global_def stale_source_def new_source_def block_def
        bytes_def len_at_def)
  have D: "queue_append 4 (detached_global, stale_source)
        = Some (Inl (Process_abort [Log ERROR ''queue oddity, stream %s, %d, %d'',
                                    Log ERROR ''weird state of min_queue point'']))"
    using queue_violation_outcomes[of detached_global stale_source "[]" 4 ?rb 1 ?tb "[0, 3]"]
      b1(1,2,12) d1
    by simp
  show ?thesis using a1 a2(5) A b1(6) b1(2) B C d1(4) D by (intro conjI)
qed


section \<open>Lookup through the fallback chain\<close>

lemma hop_None_later: "hop tree cfg m d = None \<Longrightarrow> d \<le> n \<Longrightarrow> hop tree cfg m n = None"
proof (induction n)
  case 0
  then show ?case by simp
next
  case (Suc n)
  show ?case
  proof (cases "d \<le> n")
    case True
    with Suc show ?thesis by simp
  next
    case False
    with Suc.prems have "d = Suc n" by simp
    with Suc.prems show ?thesis by simp
  qed
qed

lemma find_mount_from_None [simp]: "find_mount_from tree cfg None d = None"
  by simp

lemma find_mount_from_hops:
  "find_mount_from tree cfg (hop tree cfg m d) d = Some src \<longleftrightarrow>
     (\<exists>n. d \<le> n \<and> n < MAX_FALLBACK_DEPTH \<and>
          (\<exists>m'. hop tree cfg m n = Some m' \<and> tree m' = Some src \<and> source_available src))"
proof (induction "MAX_FALLBACK_DEPTH - d" arbitrary: d)
  case 0
  then have "\<not> d < MAX_FALLBACK_DEPTH" by simp
  then show ?case by (auto split: option.splits)
next
  case (Suc k)
  then have d: "d < MAX_FALLBACK_DEPTH" and k: "k = MAX_FALLBACK_DEPTH - Suc d" by simp_all
  note IH = Suc.hyps(1)[OF k]
  show ?case
  proof (cases "hop tree cfg m d")
    case None
    then have "\<And>n. d \<le> n \<Longrightarrow> hop tree cfg m n = None" by (rule hop_None_later)
    with None show ?thesis by auto
  next
    case (Some m')
    show ?thesis
    proof (cases "\<exists>s. tree m' = Some s \<and> source_available s")
      case True
      then obtain s where s: "tree m' = Some s" "source_available s" by blast
      have lhs: "find_mount_from tree cfg (hop tree cfg m d) d = Some s"
        using Some d s by (simp add: source_find_mount_raw_def)
      have "hop tree cfg m (Suc d) = None" using Some s by simp
      then have later: "\<And>n. Suc d \<le> n \<Longrightarrow> hop tree cfg m n = None" by (rule hop_None_later)
      have "(\<exists>n. d \<le> n \<and> n < MAX_FALLBACK_DEPTH \<and>
          (\<exists>m'. hop tree cfg m n = Some m' \<and> tree m' = Some src \<and> source_available src))
          \<longleftrightarrow> src = s"
      proof
        assume "\<exists>n. d \<le> n \<and> n < MAX_FALLBACK_DEPTH \<and>
          (\<exists>m'. hop tree cfg m n = Some m' \<and> tree m' = Some src \<and> source_available src)"
        then obtain n m'' where n: "d \<le> n" "hop tree cfg m n = Some m''" "tree m'' = Some src"
          by blast
        have "n = d"
        proof (rule ccontr)
          assume "n \<noteq> d"
          with n(1) have "Suc d \<le> n" by simp
          from later[OF this] n(2) show False by simp
        qed
        with n Some s show "src = s" by simp
      next
        assume "src = s"
        with Some s d show "\<exists>n. d \<le> n \<and> n < MAX_FALLBACK_DEPTH \<and>
          (\<exists>m'. hop tree cfg m n = Some m' \<and> tree m' = Some src \<and> source_available src)"
          by (intro exI[of _ d]) simp
      qed
      with lhs show ?thesis by auto
    next
      case False
      have step: "find_mount_from tree cfg (hop tree cfg m d) d =
                  find_mount_from tree cfg (hop tree cfg m (Suc d)) (Suc d)"
        using Some d False
        by (subst find_mount_from.simps)
           (auto simp: source_find_mount_raw_def split: option.splits)
      have "(\<exists>n. d \<le> n \<and> n < MAX_FALLBACK_DEPTH \<and>
          (\<exists>m'. hop tree cfg m n = Some m' \<and> tree m' = Some src \<and> source_available src))
        \<longleftrightarrow> (\<exists>n. Suc d \<le> n \<and> n < MAX_FALLBACK_DEPTH \<and>
          (\<exists>m'. hop tree cfg m n = Some m' \<and> tree m' = Some src \<and> source_available src))"
      proof
        assume "\<exists>n. d \<le> n \<and> n < MAX_FALLBACK_DEPTH \<and>
          (\<exists>m'. hop tree cfg m n = Some m' \<and> tree m' = Some src \<and> source_available src)"
        then obtain n m'' where n: "d \<le> n" "n < MAX_FALLBACK_DEPTH"
          "hop tree cfg m n = Some m''" "tree m'' = Some src" "source_available src"
          by blast
        have "n \<noteq> d" using n Some False by auto
        with n(1) have "Suc d \<le> n" by simp
        with n show "\<exists>n. Suc d \<le> n \<and> n < MAX_FALLBACK_DEPTH \<and>
          (\<exists>m'. hop tree cfg m n = Some m' \<and> tree m' = Some src \<and> source_available src)"
          by blast
      next
        assume "\<exists>n. Suc d \<le> n \<and> n < MAX_FALLBACK_DEPTH \<and>
          (\<exists>m'. hop tree cfg m n = Some m' \<and> tree m' = Some src \<and> source_available src)"
        then show "\<exists>n. d \<le> n \<and> n < MAX_FALLBACK_DEPTH \<and>
          (\<exists>m'. hop tree cfg m n = Some m' \<and> tree m' = Some src \<and> source_available src)"
          using Suc_leD by blast
      qed
      with step IH show ?thesis by simp
    qed
  qed
qed

text \<open>
  Claim C5.  \<open>source_find_mount\<close> returns a source exactly when one of the first
  \<open>MAX_FALLBACK_DEPTH = 10\<close> hops of the fallback chain reaches a mount whose
  exact-match source is available, and then it returns that source; a hop leads from a
  mount without an available source to the \<open>fallback_mount\<close> configured for it.  In
  every other case (the depth is used up, the mount has no configuration entry, or the
  entry has no fallback) the result is nil, as it is for a nil mount.
\<close>

theorem source_find_mount_hops:
  "source_find_mount tree cfg None = None \<and>
   (source_find_mount tree cfg (Some m) = Some src \<longleftrightarrow>
     (\<exists>n<MAX_FALLBACK_DEPTH. \<exists>m'. hop tree cfg m n = Some m' \<and> tree m' = Some src \<and>
        source_available src)) \<and>
   MAX_FALLBACK_DEPTH = 10"
  using find_mount_from_hops[of tree cfg m 0 src]
  by (simp add: source_find_mount_def MAX_FALLBACK_DEPTH_def del: find_mount_from.simps)


theorem source_find_mount_hops_witness:
  "hop b_tree a_to_b ''/a'' 1 = Some ''/b'' \<and>
   source_find_mount b_tree a_to_b (Some ''/a'') = Some running_b"
proof -
  have h: "hop b_tree a_to_b ''/a'' 1 = Some ''/b''"
    by (simp add: b_tree_def a_to_b_def plain_mount_def)
  have "b_tree ''/b'' = Some running_b" "source_available running_b"
    by (simp_all add: b_tree_def running_b_def source_available_def new_source_def)
  with h have "\<exists>n<MAX_FALLBACK_DEPTH. \<exists>m'. hop b_tree a_to_b ''/a'' n = Some m' \<and>
      b_tree m' = Some running_b \<and> source_available running_b"
    by (intro exI[of _ 1]) (simp add: MAX_FALLBACK_DEPTH_def)
  with source_find_mount_hops[of b_tree a_to_b "''/a''" running_b] h
  show ?thesis by blast
qed

section \<open>Re-entry of the shutdown\<close>

lemma count_logmsg:
  "count_list (trace (logmsg l m g)) ev = count_list (trace g) ev + (if Log l m = ev then 1 else 0)"
  by (simp add: logmsg_def)

lemma count_trace_snoc:
  "count_list (trace (g\<lparr>trace := trace g @ [e]\<rparr>)) ev =
     count_list (trace g) ev + (if e = ev then 1 else 0)"
  by (simp add:)

lemma exiting_neq [simp]:
  "m \<noteq> ''Source \"%s\" exiting'' \<Longrightarrow> Log l m \<noteq> exiting"
  "Run_script a b \<noteq> exiting" "Auth_stream_end a \<noteq> exiting"
  by (simp_all add: exiting_def)

lemma trace_set_fallback:
  "count_list (trace (fst (source_set_fallback now incoming (g, s) d))) exiting
     = count_list (trace g) exiting"
  by (cases d) (simp_all add: source_set_fallback_def Let_def count_logmsg)

lemma trace_wakeup_fold:
  "count_list (trace (fold (\<lambda>c g'. if P c then logmsg DEBUG ''listener on %s was ahead by %ld'' g'
                                     else g') cs g)) exiting
   = count_list (trace g) exiting"
  by (induction cs arbitrary: g) (simp_all add: count_logmsg)

lemma trace_wakeup:
  "count_list (trace (fst (source_listeners_wakeup (g, s)))) exiting = count_list (trace g) exiting"
  by (simp add: source_listeners_wakeup_def trace_wakeup_fold)

lemma trace_client_wait:
  "count_list (trace (fst (source_client_wait env (g, s)))) exiting = count_list (trace g) exiting"
  by (simp add: source_client_wait_def Let_def trace_wakeup count_logmsg)

text \<open>
  Claim C6 says that \<open>source_shutdown\<close> on a source that is already \<open>TERMINATING\<close>
  changes nothing.  The function has no such guard: on the terminating source below it
  sets \<open>LISTENERS_SYNC\<close>, takes the listener count as \<open>termination_count\<close>, restarts
  \<open>timer_start\<close> and wakes the listener.
\<close>

theorem source_shutdown_reentry_counterexample:
  "SOURCE_TERMINATING \<in> flags terminating_source \<and>
   flags (snd (source_shutdown idle_env None (empty_global, terminating_source) True))
     = {SOURCE_TERMINATING, SOURCE_LISTENERS_SYNC} \<and>
   flags terminating_source = {SOURCE_TERMINATING} \<and>
   termination_count (snd (source_shutdown idle_env None (empty_global, terminating_source) True)) = 1 \<and>
   termination_count terminating_source = 0 \<and>
   timer_start (client (snd (source_shutdown idle_env None (empty_global, terminating_source) True)))
     = 3000 \<and>
   timer_start (client terminating_source) = 0 \<and>
   map schedule_ms (clients (snd (source_shutdown idle_env None (empty_global, terminating_source) True)))
     = [0] \<and>
   map schedule_ms (clients terminating_source) = [500]"
  by (auto simp: source_shutdown_def source_listeners_wakeup_def terminating_source_def
      new_source_def zero_client_def idle_env_def empty_global_def logmsg_def Let_def)

lemma set_fallback_keeps:
  "flags (snd (source_set_fallback now incoming (g, s) d)) = flags s \<and>
   termination_count (snd (source_set_fallback now incoming (g, s) d)) = termination_count s \<and>
   client (snd (source_set_fallback now incoming (g, s) d)) = client s \<and>
   clients (snd (source_set_fallback now incoming (g, s) d)) = clients s \<and>
   listeners (snd (source_set_fallback now incoming (g, s) d)) = listeners s"
  by (cases d) (simp_all add: source_set_fallback_def Let_def)

lemma source_shutdown_effect:
  "\<exists>g' s'. source_shutdown env mountinfo (g, s) with_fallback = (g', s') \<and>
     flags s' = (flags s - {SOURCE_ON_DEMAND, SOURCE_TIMEOUT})
                  \<union> {SOURCE_TERMINATING, SOURCE_LISTENERS_SYNC} \<and>
     termination_count s' = listeners s \<and>
     timer_start (client s') = time_ms (read_worker env) \<and>
     clients s' = map (\<lambda>c. c\<lparr>schedule_ms := 0\<rparr>) (clients s) \<and>
     listeners s' = listeners s \<and>
     count_list (trace g') exiting = count_list (trace g) exiting + 1"
proof -
  let ?g1 = "logmsg INFO ''Source \"%s\" exiting'' g"
  let ?s1 = "s\<lparr>flags := (flags s - {SOURCE_ON_DEMAND, SOURCE_TIMEOUT})
                                \<union> {SOURCE_TERMINATING, SOURCE_LISTENERS_SYNC},
                    termination_count := listeners s,
                    client := (client s)\<lparr>timer_start := time_ms (read_worker env)\<rparr>\<rparr>"
  let ?s2 = "?s1\<lparr>clients := map (\<lambda>c. c\<lparr>schedule_ms := 0\<rparr>) (clients ?s1)\<rparr>"
  have c1: "count_list (trace ?g1) exiting = count_list (trace g) exiting + 1"
    by (simp add: count_logmsg exiting_def)
  obtain g2 where w: "source_listeners_wakeup (?g1, ?s1) = (g2, ?s2)"
    by (simp add: source_listeners_wakeup_def)
  have c2: "count_list (trace g2) exiting = count_list (trace g) exiting + 1"
    using trace_wakeup[of ?g1 ?s1] w c1 by simp
  define s3 where "s3 = (if con_time (client ?s2) \<noteq> 0
                          then update_source_stats (in_rate env) ?s2 else ?s2)"
  define g3 where "g3 = (case mountinfo of
               None \<Rightarrow> g2
             | Some mi \<Rightarrow>
                 if con_time (client ?s2) \<noteq> 0 then
                   (let g' = (case on_disconnect mi of
                                None \<Rightarrow> g2
                              | Some cmd \<Rightarrow> g2\<lparr>trace := trace g2 @ [Run_script cmd (mount ?s2)]\<rparr>)
                    in g'\<lparr>trace := trace g' @ [Auth_stream_end (mount ?s2)]\<rparr>)
                 else g2)"
  have c3: "count_list (trace g3) exiting = count_list (trace g) exiting + 1"
    using c2 by (simp add: g3_def Let_def split: option.splits)
  have k3: "flags s3 = flags ?s1" "termination_count s3 = listeners s"
      "timer_start (client s3) = time_ms (read_worker env)"
      "clients s3 = map (\<lambda>c. c\<lparr>schedule_ms := 0\<rparr>) (clients s)" "listeners s3 = listeners s"
    by (simp_all add: s3_def update_source_stats_def)
  have run: "source_shutdown env mountinfo (g, s) with_fallback =
      (case mountinfo of
         None \<Rightarrow> (g3, s3)
       | Some mi \<Rightarrow>
           if with_fallback \<and> global_running env
           then source_set_fallback (current_time (read_worker env)) (in_rate env) (g3, s3)
                  (fallback_mount mi)
           else (g3, s3))"
    using w by (simp add: source_shutdown_def Let_def g3_def s3_def split: option.splits)
  show ?thesis
  proof (cases "\<exists>mi. mountinfo = Some mi \<and> with_fallback \<and> global_running env")
    case False
    then have "source_shutdown env mountinfo (g, s) with_fallback = (g3, s3)"
      using run by (auto split: option.splits)
    then show ?thesis using c3 k3 by simp
  next
    case True
    then obtain mi where mi: "mountinfo = Some mi" "with_fallback \<and> global_running env"
      by blast
    let ?r = "source_set_fallback (current_time (read_worker env)) (in_rate env) (g3, s3)
                (fallback_mount mi)"
    have "source_shutdown env mountinfo (g, s) with_fallback = (fst ?r, snd ?r)"
      using run mi by simp
    then show ?thesis
      using c3 k3 trace_set_fallback[of "current_time (read_worker env)" "in_rate env" g3 s3
          "fallback_mount mi"]
        set_fallback_keeps[of "current_time (read_worker env)" "in_rate env" g3 s3
          "fallback_mount mi"]
      by (intro exI[of _ "fst ?r"] exI[of _ "snd ?r"]) simp
  qed
qed

text \<open>
  Claim C6, as amended.  \<open>source_shutdown\<close> has no guard of its own: whatever the flags
  of the source, and so also when \<open>TERMINATING\<close> is set already, it writes the line
  "exiting", clears \<open>ON_DEMAND\<close> and \<open>TIMEOUT\<close>, sets \<open>TERMINATING\<close> and
  \<open>LISTENERS_SYNC\<close>, takes the listener count as \<open>termination_count\<close>, restarts
  \<open>timer_start\<close> and wakes every listener.  The guard is in the caller:
  \<open>source_client_read\<close> calls \<open>source_shutdown\<close> only while \<open>TERMINATING\<close> is clear.
  For a source that is not running and already \<open>TERMINATING\<close>, the pass of
  \<open>source_client_read\<close> is the wait for the listeners alone, on the unchanged source,
  and it does not write the line with which every call of \<open>source_shutdown\<close> begins.
\<close>

theorem source_client_read_guards_shutdown:
  "(\<exists>g' s'. source_shutdown env mountinfo (g, s) with_fallback = (g', s') \<and>
      flags s' = (flags s - {SOURCE_ON_DEMAND, SOURCE_TIMEOUT})
                   \<union> {SOURCE_TERMINATING, SOURCE_LISTENERS_SYNC} \<and>
      termination_count s' = listeners s \<and>
      timer_start (client s') = time_ms (read_worker env) \<and>
      clients s' = map (\<lambda>c. c\<lparr>schedule_ms := 0\<rparr>) (clients s) \<and>
      count_list (trace g') exiting = count_list (trace g) exiting + 1) \<and>
   (SOURCE_TERMINATING \<in> flags s \<and> \<not> source_running s \<and> shared_data (client s) \<noteq> None \<longrightarrow>
      (\<exists>g1. source_client_read env mountinfo (g, s) =
              Some (Inr (0, source_client_wait env (g1, s))) \<and>
            count_list (trace (fst (source_client_wait env (g1, s)))) exiting
              = count_list (trace g) exiting))"
proof (intro conjI impI)
  show "\<exists>g' s'. source_shutdown env mountinfo (g, s) with_fallback = (g', s') \<and>
      flags s' = (flags s - {SOURCE_ON_DEMAND, SOURCE_TIMEOUT})
                   \<union> {SOURCE_TERMINATING, SOURCE_LISTENERS_SYNC} \<and>
      termination_count s' = listeners s \<and>
      timer_start (client s') = time_ms (read_worker env) \<and>
      clients s' = map (\<lambda>c. c\<lparr>schedule_ms := 0\<rparr>) (clients s) \<and>
      count_list (trace g') exiting = count_list (trace g) exiting + 1"
    using source_shutdown_effect[of env mountinfo g s with_fallback] by blast
next
  assume a: "SOURCE_TERMINATING \<in> flags s \<and> \<not> source_running s \<and> shared_data (client s) \<noteq> None"
  then have nr: "SOURCE_RUNNING \<notin> flags s" by (simp add: source_running_def)
  then have same: "s\<lparr>flags := flags s - {SOURCE_RUNNING}\<rparr> = s" by simp
  let ?expired = "con_discon_time (client s) \<noteq> 0 \<and>
                  con_discon_time (client s) \<le> current_time (read_worker env)"
  let ?g1 = "if ?expired then logmsg INFO ''streaming duration expired on %s'' g else g"
  have run: "source_client_read env mountinfo (g, s) = Some (Inr (0, source_client_wait env (?g1, s)))"
    using a nr same
    by (simp add: source_client_read_def Let_def source_running_def split: prod.splits)
  have cnt: "count_list (trace ?g1) exiting = count_list (trace g) exiting"
    by (simp add: count_logmsg)
  show "\<exists>g1. source_client_read env mountinfo (g, s) =
              Some (Inr (0, source_client_wait env (g1, s))) \<and>
            count_list (trace (fst (source_client_wait env (g1, s)))) exiting
              = count_list (trace g) exiting"
    using run cnt trace_client_wait by (intro exI[of _ ?g1]) simp
qed

text \<open>
  A source that is terminating already, with \<open>ON_DEMAND\<close> and \<open>TIMEOUT\<close> set and one
  listener due at 500 ms.
\<close>

theorem source_client_read_guards_shutdown_witness:
  "SOURCE_TERMINATING \<in> flags (terminating_source\<lparr>flags := {SOURCE_TERMINATING, SOURCE_ON_DEMAND, SOURCE_TIMEOUT}\<rparr>) \<and>
   \<not> source_running (terminating_source\<lparr>flags := {SOURCE_TERMINATING, SOURCE_ON_DEMAND, SOURCE_TIMEOUT}\<rparr>) \<and>
   (\<exists>g' s'. source_shutdown idle_env None
               (empty_global,
                terminating_source\<lparr>flags := {SOURCE_TERMINATING, SOURCE_ON_DEMAND, SOURCE_TIMEOUT}\<rparr>)
               True = (g', s') \<and>
      flags s' = {SOURCE_TERMINATING, SOURCE_LISTENERS_SYNC} \<and>
      termination_count s' = 1 \<and> timer_start (client s') = 3000 \<and>
      map schedule_ms (clients s') = [0] \<and> count_list (trace g') exiting = 1) \<and>
   (\<exists>g1. source_client_read idle_env None
            (empty_global,
             terminating_source\<lparr>flags := {SOURCE_TERMINATING, SOURCE_ON_DEMAND, SOURCE_TIMEOUT}\<rparr>) =
           Some (Inr (0, source_client_wait idle_env
                   (g1, terminating_source\<lparr>flags := {SOURCE_TERMINATING, SOURCE_ON_DEMAND, SOURCE_TIMEOUT}\<rparr>))) \<and>
         count_list (trace (fst (source_client_wait idle_env
            (g1, terminating_source\<lparr>flags := {SOURCE_TERMINATING, SOURCE_ON_DEMAND, SOURCE_TIMEOUT}\<rparr>))))
           exiting = 0)"
proof -
  let ?s = "terminating_source\<lparr>flags := {SOURCE_TERMINATING, SOURCE_ON_DEMAND, SOURCE_TIMEOUT}\<rparr>"
  have h: "SOURCE_TERMINATING \<in> flags ?s" "\<not> source_running ?s"
      "shared_data (client ?s) \<noteq> None"
    by (simp_all add: terminating_source_def new_source_def zero_client_def source_running_def)
  have v: "(flags ?s - {SOURCE_ON_DEMAND, SOURCE_TIMEOUT})
              \<union> {SOURCE_TERMINATING, SOURCE_LISTENERS_SYNC}
            = {SOURCE_TERMINATING, SOURCE_LISTENERS_SYNC}"
      "listeners ?s = 1" "time_ms (read_worker idle_env) = 3000"
      "map schedule_ms (map (\<lambda>c. c\<lparr>schedule_ms := 0\<rparr>) (clients ?s)) = [0]"
      "count_list (trace empty_global) exiting = 0"
    by (auto simp: terminating_source_def new_source_def idle_env_def empty_global_def)
  from source_client_read_guards_shutdown[of idle_env None empty_global ?s True]
  have A: "\<exists>g' s'. source_shutdown idle_env None (empty_global, ?s) True = (g', s') \<and>
      flags s' = (flags ?s - {SOURCE_ON_DEMAND, SOURCE_TIMEOUT})
                   \<union> {SOURCE_TERMINATING, SOURCE_LISTENERS_SYNC} \<and>
      termination_count s' = listeners ?s \<and>
      timer_start (client s') = time_ms (read_worker idle_env) \<and>
      clients s' = map (\<lambda>c. c\<lparr>schedule_ms := 0\<rparr>) (clients ?s) \<and>
      count_list (trace g') exiting = count_list (trace empty_global) exiting + 1"
    and B: "\<exists>g1. source_client_read idle_env None (empty_global, ?s) =
              Some (Inr (0, source_client_wait idle_env (g1, ?s))) \<and>
            count_list (trace (fst (source_client_wait idle_env (g1, ?s)))) exiting
              = count_list (trace empty_global) exiting"
    using h by blast+
  from A obtain g' s' where
    r: "source_shutdown idle_env None (empty_global, ?s) True = (g', s')"
      "flags s' = (flags ?s - {SOURCE_ON_DEMAND, SOURCE_TIMEOUT})
                   \<union> {SOURCE_TERMINATING, SOURCE_LISTENERS_SYNC}"
      "termination_count s' = listeners ?s"
      "timer_start (client s') = time_ms (read_worker idle_env)"
      "clients s' = map (\<lambda>c. c\<lparr>schedule_ms := 0\<rparr>) (clients ?s)"
      "count_list (trace g') exiting = count_list (trace empty_global) exiting + 1"
    by blast
  have A': "\<exists>g' s'. source_shutdown idle_env None (empty_global, ?s) True = (g', s') \<and>
      flags s' = {SOURCE_TERMINATING, SOURCE_LISTENERS_SYNC} \<and>
      termination_count s' = 1 \<and> timer_start (client s') = 3000 \<and>
      map schedule_ms (clients s') = [0] \<and> count_list (trace g') exiting = 1"
    using r v by (intro exI[of _ g'] exI[of _ s']) simp
  have B': "\<exists>g1. source_client_read idle_env None (empty_global, ?s) =
              Some (Inr (0, source_client_wait idle_env (g1, ?s))) \<and>
            count_list (trace (fst (source_client_wait idle_env (g1, ?s)))) exiting = 0"
    using B v(5) by simp
  show ?thesis using h(1) h(2) A' B' by (intro conjI)
qed


section \<open>The watchdog of the listener synchronisation\<close>

text \<open>
  Claim C7.  A source is in \<open>LISTENERS_SYNC\<close>, its \<open>termination_count\<close> is not zero,
  and more than 1500 ms have passed since \<open>timer_start\<close>.  Then the next pass of
  \<open>source_read\<close> returns 0 after clearing \<open>RUNNING\<close> and \<open>LISTENERS_SYNC\<close> in one
  assignment and rescheduling the source client 30 ms later; nothing else of the source
  changes, so the listeners that are still attached stay attached.
\<close>

theorem source_read_sync_watchdog:
  assumes "SOURCE_LISTENERS_SYNC \<in> flags s" and "termination_count s \<noteq> 0"
    and "timer_start (client s) + 1500 < time_ms (read_worker env)"
  shows "source_read env (g, s) =
           Some (Inr (0, logmsg WARN ''stopping %s as sync mode lasted too long'' g,
                      s\<lparr>flags := flags s - {SOURCE_RUNNING, SOURCE_LISTENERS_SYNC},
                        client := (client s)\<lparr>schedule_ms := time_ms (read_worker env) + 30\<rparr>\<rparr>))"
proof -
  have "flags s - {SOURCE_RUNNING} - {SOURCE_RUNNING, SOURCE_LISTENERS_SYNC} =
        flags s - {SOURCE_RUNNING, SOURCE_LISTENERS_SYNC}"
    by auto
  then show ?thesis
    using assms by (simp add: source_read_def Let_def add_schedule_def)
qed

theorem source_read_sync_watchdog_witness:
  "\<exists>g' s'. source_read idle_env (two_blocks, syncing_source) = Some (Inr (0, g', s')) \<and>
      flags s' = {} \<and> listeners s' = 2 \<and> length (clients s') = 2 \<and> termination_count s' = 2"
proof -
  have "SOURCE_LISTENERS_SYNC \<in> flags syncing_source"
    and "termination_count syncing_source \<noteq> 0"
    and "timer_start (client syncing_source) + 1500 < time_ms (read_worker idle_env)"
    by (simp_all add: syncing_source_def idle_env_def new_source_def zero_client_def)
  from source_read_sync_watchdog[OF this, of two_blocks]
  show ?thesis
    by (simp add: syncing_source_def new_source_def)
qed

section \<open>The work of one pass of a listener\<close>






section \<open>Duplicate logins\<close>

lemma ten: "(10::nat) = Suc 9" by simp

lemma find_place_10:
  "find_place env pm mi 10 rate mnt minfo st = find_place env pm mi (Suc 9) rate mnt minfo st"
  by (simp only: ten)

lemma drop_or_refuse_first:
  "\<forall>y\<in>set pre. username y \<noteq> Some u \<Longrightarrow> username x = Some u \<Longrightarrow>
   drop_or_refuse d u (pre @ x # post) =
     (if d then (1, True, pre @ x\<lparr>con_error := 1\<rparr> # post) else (0, False, pre @ x # post))"
  by (induction pre) auto

lemma check_duplicate_logins_first:
  assumes "\<not> allow_duplicate_users a" "username c = Some u" "CLIENT_IS_SLAVE \<notin> cl_flags c"
    and "clients s = pre @ x # post" "username x = Some u" "\<forall>y\<in>set pre. username y \<noteq> Some u"
  shows "check_duplicate_logins (g, s) c (Some a) =
     (if drop_existing_listener a
      then (1, logmsg INFO ''Found %s on %s, dropping previous account'' g,
            s\<lparr>clients := pre @ x\<lparr>con_error := 1\<rparr> # post\<rparr>)
      else (0, g, s))"
proof -
  have "s\<lparr>clients := pre @ x # post\<rparr> = s" using assms(4) by simp
  then show ?thesis
    using assms by (simp add: check_duplicate_logins_def drop_or_refuse_first)
qed

lemma set_insert_client:
  "\<forall>y\<in>set cs. con_id y \<noteq> con_id c \<Longrightarrow> set (insert_client c cs) = insert c (set cs)"
  by (induction cs) auto

lemma insert_client_keeps: "y \<in> set cs \<Longrightarrow> y \<in> set (insert_client c cs)"
  by (induction cs) auto

lemma setup_listener_result:
  "\<exists>g' s' c'. source_setup_listener w (g, s, c) = (g', s', c') \<and>
     clients s' = insert_client c' (clients s) \<and> listeners s' = (listeners s + 1) mod 2 ^ 64 \<and>
     con_id c' = con_id c \<and> flags s' = flags s \<and>
     cl_flags c' = cl_flags c - {CLIENT_IN_FSERVE} \<and> mount s' = mount s"
  by (simp add: source_setup_listener_def Let_def)

lemma store_client_keeps:
  "y \<in> set (clients s) \<Longrightarrow> con_id y \<noteq> con_id c \<Longrightarrow> y \<in> set (clients (store_client c s))"
  by (force simp: store_client_def)

lemma store_client_enters:
  "y \<in> set (clients s) \<Longrightarrow> con_id y = con_id c \<Longrightarrow> c \<in> set (clients (store_client c s))"
  by (force simp: store_client_def)

lemma listeners_store_client: "listeners (store_client c s) = listeners s"
  by (simp add: store_client_def)


lemma within_limits_room:
  "\<exists>g'. within_limits mi (if has_format env mnt then stream_rate env mnt else 0) src g =
          (has_room env mi mnt src, g') \<and> mem g' = mem g"
  by (auto simp: within_limits_def has_room_def Let_def logmsg_def)

lemma admit_to_refuse:
  assumes cl: "username c = Some u" "CLIENT_IS_SLAVE \<notin> cl_flags c"
    and bw: "\<not> (has_format env mnt \<and> a_max_bandwidth env \<noteq> 0
                \<and> a_global_rate env + stream_rate env mnt > a_max_bandwidth env)"
    and mi: "auth mi = Some a" "\<not> allow_duplicate_users a" "\<not> drop_existing_listener a"
    and dup: "clients src = pre @ x # post" "username x = Some u"
      "\<forall>y\<in>set pre. username y \<noteq> Some u"
  shows "\<exists>g'. admit_to env pm (Some mi) mnt minfo src (g, tree, c) =
           Inl (Send_403 ''Account already in use'', g', tree(mnt \<mapsto> src), c) \<and> mem g' = mem g"
proof -
  have cd: "\<And>g0. check_duplicate_logins (g0, src) c (Some a) = (0, g0, src)"
    using check_duplicate_logins_first[OF mi(2) cl dup] mi(3) by simp
  show ?thesis
    using bw by (auto simp: admit_to_def cl(2) mi(1) cd Let_def logmsg_def)
qed

lemma admit_to_drop:
  assumes cl: "username c = Some u" "CLIENT_IS_SLAVE \<notin> cl_flags c"
    and bw: "\<not> (has_format env mnt \<and> a_max_bandwidth env \<noteq> 0
                \<and> a_global_rate env + stream_rate env mnt > a_max_bandwidth env)"
    and mi: "auth mi = Some a" "\<not> allow_duplicate_users a" "drop_existing_listener a"
    and dup: "clients src = pre @ x # post" "username x = Some u"
      "\<forall>y\<in>set pre. username y \<noteq> Some u"
  shows "\<exists>g' c'. mem g' = mem g \<and> con_id c' = con_id c \<and> refbuf c' = refbuf c \<and>
           cl_flags c' = cl_flags c \<and>
           admit_to env pm (Some mi) mnt minfo src (g, tree, c) =
             (if has_room env mi mnt src
              then Inl (On_source mnt, g',
                        tree(mnt \<mapsto> src\<lparr>clients := pre @ x\<lparr>con_error := 1\<rparr> # post\<rparr>), c')
              else case (case minfo of
                           None \<Rightarrow> None
                         | Some m' \<Rightarrow> if fallback_when_full m' then fallback_mount m' else None)
                   of Some fm \<Rightarrow>
                        Inr (fm, g',
                             tree(mnt \<mapsto> src\<lparr>clients := pre @ x\<lparr>con_error := 1\<rparr> # post\<rparr>), c')
                    | None \<Rightarrow>
                        Inl (Send_403redirect pm ''max listeners reached'', g',
                             tree(mnt \<mapsto> src\<lparr>clients := pre @ x\<lparr>con_error := 1\<rparr> # post\<rparr>), c'))"
proof -
  let ?src1 = "src\<lparr>clients := pre @ x\<lparr>con_error := 1\<rparr> # post\<rparr>"
  let ?sb = "if has_format env mnt then stream_rate env mnt else 0"
  let ?g1 = "if has_format env mnt \<and> a_max_bandwidth env \<noteq> 0
             then logmsg DEBUG ''server outgoing bitrate is %'' g else g"
  let ?g2 = "logmsg INFO ''Found %s on %s, dropping previous account'' ?g1"
  let ?c1 = "if max_listener_duration mi \<noteq> 0 \<and> con_discon_time c = 0
             then c\<lparr>con_discon_time := a_time env + max_listener_duration mi\<rparr> else c"
  have cd: "\<And>g0. check_duplicate_logins (g0, src) c (Some a) =
      (1, logmsg INFO ''Found %s on %s, dropping previous account'' g0, ?src1)"
    using check_duplicate_logins_first[OF mi(2) cl dup] mi(3) by simp
  have nb: "\<not> (has_format env mnt \<and> a_max_bandwidth env \<noteq> 0 \<and>
              a_max_bandwidth env < a_global_rate env + ?sb)"
    using bw by simp
  have room1: "has_room env mi mnt ?src1 = has_room env mi mnt src"
    by (simp add: has_room_def)
  obtain g3 where wl: "within_limits mi ?sb ?src1 ?g2 = (has_room env mi mnt src, g3)"
    and m3: "mem g3 = mem g"
    using within_limits_room[of mi env mnt ?src1 ?g2] room1 by (auto simp: logmsg_def)
  have run: "admit_to env pm (Some mi) mnt minfo src (g, tree, c) =
      (if has_room env mi mnt src then Inl (On_source mnt, g3, tree(mnt \<mapsto> ?src1), ?c1)
       else case (case minfo of
                    None \<Rightarrow> None
                  | Some m' \<Rightarrow> if fallback_when_full m' then fallback_mount m' else None)
            of Some fm \<Rightarrow> Inr (fm, logmsg INFO ''stream full trying %s'' g3,
                              tree(mnt \<mapsto> ?src1), ?c1)
             | None \<Rightarrow> Inl (Send_403redirect pm ''max listeners reached'', g3,
                            tree(mnt \<mapsto> ?src1), ?c1))"
    unfolding admit_to_def Let_def using nb cl(2) by (auto simp: mi(1) cd wl)
  have c1: "con_id ?c1 = con_id c" "refbuf ?c1 = refbuf c" "cl_flags ?c1 = cl_flags c"
    by simp_all
  show ?thesis
  proof (cases "has_room env mi mnt src")
    case True
    then show ?thesis using run m3 c1 by (intro exI[of _ g3] exI[of _ ?c1]) simp
  next
    case False
    show ?thesis
    proof (cases "case minfo of None \<Rightarrow> None
                  | Some m' \<Rightarrow> if fallback_when_full m' then fallback_mount m' else None")
      case None
      then show ?thesis using False run m3 c1 by (intro exI[of _ g3] exI[of _ ?c1]) simp
    next
      case (Some fm)
      then show ?thesis
        using False run m3 c1
        by (intro exI[of _ "logmsg INFO ''stream full trying %s'' g3"] exI[of _ ?c1])
           (simp add: logmsg_def)
    qed
  qed
qed


lemma find_place_found:
  "tree mnt = Some src \<Longrightarrow> source_available src \<Longrightarrow>
   admit_to env pm mi mnt minfo src (g, tree, c) = Inl r \<Longrightarrow>
   find_place env pm mi (Suc loop) rate mnt minfo (g, tree, c) = r"
  by (simp add: source_find_mount_raw_def)

lemma find_place_full:
  "tree mnt = Some src \<Longrightarrow> source_available src \<Longrightarrow>
   admit_to env pm mi mnt minfo src (g, tree, c) = Inr (fm, st') \<Longrightarrow>
   find_place env pm mi (Suc loop) rate mnt minfo (g, tree, c) =
     find_place env pm mi loop rate fm minfo st'"
  by (simp add: source_find_mount_raw_def)

lemma marked_same: "con_error y = 1 \<Longrightarrow> y\<lparr>con_error := 1\<rparr> = y"
proof -
  assume "con_error y = 1"
  moreover have "y\<lparr>con_error := con_error y\<rparr> = y" by simp
  ultimately show ?thesis by simp
qed

lemma drop_or_refuse_keeps:
  "y \<in> set xs \<Longrightarrow> con_error y = 1 \<Longrightarrow> y \<in> set (snd (snd (drop_or_refuse d u xs)))"
  by (induction xs) (auto simp: marked_same split: prod.splits)

lemma check_duplicate_logins_keeps:
  "y \<in> set (clients s) \<Longrightarrow> con_error y = 1 \<Longrightarrow>
   y \<in> set (clients (snd (snd (check_duplicate_logins (g, s) c au))))"
  by (auto simp: check_duplicate_logins_def split: option.splits prod.splits)
     (metis drop_or_refuse_keeps snd_conv)

lemma admit_to_shape:
  "\<exists>g' tree' c'.
     ((\<exists>r. admit_to env pm mi mnt minfo src (g, tree, c) = Inl (r, g', tree', c')) \<or>
      (\<exists>fm. admit_to env pm mi mnt minfo src (g, tree, c) = Inr (fm, g', tree', c'))) \<and>
     (tree' = tree \<or>
      (\<exists>m g0. mi = Some m \<and>
         tree' = tree(mnt \<mapsto> snd (snd (check_duplicate_logins (g0, src) c (auth m)))))) \<and>
     con_id c' = con_id c"
proof (cases "CLIENT_IS_SLAVE \<in> cl_flags c")
  case True
  then show ?thesis by (simp add: admit_to_def)
next
  case ns: False
  let ?sb = "if has_format env mnt then stream_rate env mnt else 0"
  let ?lim = "has_format env mnt \<and> a_max_bandwidth env \<noteq> 0"
  let ?g1 = "if ?lim then logmsg DEBUG ''server outgoing bitrate is %'' g else g"
  show ?thesis
  proof (cases "?lim \<and> a_global_rate env + ?sb > a_max_bandwidth env")
    case True
    then have "admit_to env pm mi mnt minfo src (g, tree, c) =
        Inl (Send_403redirect pm ''server bandwidth reached'',
             logmsg INFO ''server-wide outgoing bandwidth limit reached'' ?g1, tree, c)"
      unfolding admit_to_def Let_def using ns by auto
    then show ?thesis by simp
  next
    case nb: False
    show ?thesis
    proof (cases mi)
      case None
      then show ?thesis using ns nb by (simp add: admit_to_def Let_def)
    next
      case (Some m)
      obtain ok g2 src1 where cd: "check_duplicate_logins (?g1, src) c (auth m) = (ok, g2, src1)"
        by (cases "check_duplicate_logins (?g1, src) c (auth m)") auto
      then have s1: "src1 = snd (snd (check_duplicate_logins (?g1, src) c (auth m)))" by simp
      let ?c1 = "if max_listener_duration m \<noteq> 0 \<and> con_discon_time c = 0
                 then c\<lparr>con_discon_time := a_time env + max_listener_duration m\<rparr> else c"
      obtain room g3 where wl: "within_limits m ?sb src1 g2 = (room, g3)"
        by (cases "within_limits m ?sb src1 g2") auto
      have run: "admit_to env pm mi mnt minfo src (g, tree, c) =
          (if ok = 0 then Inl (Send_403 ''Account already in use'', g2, tree(mnt \<mapsto> src1), c)
           else if room then Inl (On_source mnt, g3, tree(mnt \<mapsto> src1), ?c1)
           else case (case minfo of
                    None \<Rightarrow> None
                  | Some m' \<Rightarrow> if fallback_when_full m' then fallback_mount m' else None)
            of Some fm \<Rightarrow> Inr (fm, logmsg INFO ''stream full trying %s'' g3,
                              tree(mnt \<mapsto> src1), ?c1)
             | None \<Rightarrow> Inl (Send_403redirect pm ''max listeners reached'', g3,
                            tree(mnt \<mapsto> src1), ?c1))"
        unfolding admit_to_def Let_def using ns nb Some cd wl by auto
      have t: "\<exists>m' g0. mi = Some m' \<and>
         tree(mnt \<mapsto> src1) = tree(mnt \<mapsto> snd (snd (check_duplicate_logins (g0, src) c (auth m'))))"
        using Some s1 by blast
      have c1: "con_id ?c1 = con_id c" by simp
      show ?thesis
      proof (cases "ok = 0")
        case True
        then show ?thesis using run t
          by (intro exI[of _ g2] exI[of _ "tree(mnt \<mapsto> src1)"] exI[of _ c]) simp
      next
        case nz: False
        show ?thesis
        proof (cases room)
          case True
          then show ?thesis using run t nz c1
            by (intro exI[of _ g3] exI[of _ "tree(mnt \<mapsto> src1)"] exI[of _ ?c1]) simp
        next
          case nr: False
          show ?thesis
          proof (cases "case minfo of None \<Rightarrow> None
                  | Some m' \<Rightarrow> if fallback_when_full m' then fallback_mount m' else None")
            case None
            then show ?thesis using run t nz nr c1
              by (intro exI[of _ g3] exI[of _ "tree(mnt \<mapsto> src1)"] exI[of _ ?c1]) simp
          next
            case (Some fm)
            then show ?thesis using run t nz nr c1
              by (intro exI[of _ "logmsg INFO ''stream full trying %s'' g3"]
                  exI[of _ "tree(mnt \<mapsto> src1)"] exI[of _ ?c1]) simp
          qed
        qed
      qed
    qed
  qed
qed


lemma admit_to_keeps:
  assumes m0: "tree m0 = Some s0" "y \<in> set (clients s0)" "con_error y = 1"
    and src: "tree mnt = Some src"
    and res: "admit_to env pm mi mnt minfo src (g, tree, c) = Inl (r, g', tree', c') \<or>
              admit_to env pm mi mnt minfo src (g, tree, c) = Inr (fm, g', tree', c')"
  shows "(\<exists>s'. tree' m0 = Some s' \<and> y \<in> set (clients s')) \<and> con_id c' = con_id c"
proof -
  from admit_to_shape[of env pm mi mnt minfo src g tree c] res
  have sh: "tree' = tree \<or>
      (\<exists>m g0. mi = Some m \<and>
         tree' = tree(mnt \<mapsto> snd (snd (check_duplicate_logins (g0, src) c (auth m)))))"
    and id: "con_id c' = con_id c"
    by auto
  from sh have "\<exists>s'. tree' m0 = Some s' \<and> y \<in> set (clients s')"
  proof
    assume "tree' = tree"
    then show ?thesis using m0 by simp
  next
    assume "\<exists>m g0. mi = Some m \<and>
         tree' = tree(mnt \<mapsto> snd (snd (check_duplicate_logins (g0, src) c (auth m))))"
    then obtain m g0 where "mi = Some m" and
      t: "tree' = tree(mnt \<mapsto> snd (snd (check_duplicate_logins (g0, src) c (auth m))))"
      by blast
    show ?thesis
    proof (cases "mnt = m0")
      case True
      then have "src = s0" using m0(1) src by simp
      then have "y \<in> set (clients (snd (snd (check_duplicate_logins (g0, src) c (auth m)))))"
        using check_duplicate_logins_keeps[OF _ m0(3)] m0(2) by simp
      then show ?thesis using t True by simp
    next
      case False
      then show ?thesis using t m0 by simp
    qed
  qed
  with id show ?thesis by simp
qed

lemma find_place_keeps:
  "\<exists>s0. tree m0 = Some s0 \<and> y \<in> set (clients s0) \<Longrightarrow> con_error y = 1 \<Longrightarrow>
   find_place env pm mi loop rate mnt minfo (g, tree, c) = (r, g', tree', c') \<Longrightarrow>
   (\<exists>s'. tree' m0 = Some s' \<and> y \<in> set (clients s')) \<and> con_id c' = con_id c"
proof (induction loop arbitrary: rate mnt minfo g tree c)
  case 0
  then show ?case by simp
next
  case (Suc loop)
  from Suc.prems(1) obtain s0 where m0: "tree m0 = Some s0" "y \<in> set (clients s0)" by blast
  let ?look = "case source_find_mount_raw tree (Some mnt) of
                 None \<Rightarrow> None
               | Some src \<Rightarrow> if source_available src then Some src else None"
  show ?case
  proof (cases ?look)
    case None
    let ?rate1 = "case minfo of
                    None \<Rightarrow> rate
                  | Some mi \<Rightarrow> if mp_limit_rate mi \<noteq> 0 then mp_limit_rate mi else rate"
    show ?thesis
    proof (cases "case minfo of None \<Rightarrow> None | Some mi \<Rightarrow> fallback_mount mi")
      case nf: None
      have "tree' = tree \<and> c' = c"
        using Suc.prems(3) None nf by (simp add: Let_def split: if_splits)
      then show ?thesis using Suc.prems(1) by simp
    next
      case (Some fm)
      have "find_place env pm mi (Suc loop) rate mnt minfo (g, tree, c) =
            find_place env pm mi loop ?rate1 fm (a_config env fm) (g, tree, c)"
        using None Some by (simp add: Let_def)
      then have "find_place env pm mi loop ?rate1 fm (a_config env fm) (g, tree, c) =
            (r, g', tree', c')"
        using Suc.prems(3) by simp
      from Suc.IH[OF Suc.prems(1) Suc.prems(2) this] show ?thesis .
    qed
  next
    case (Some src)
    then have t: "tree mnt = Some src" "source_available src"
      by (auto simp: source_find_mount_raw_def split: option.splits if_splits)
    show ?thesis
    proof (cases "admit_to env pm mi mnt minfo src (g, tree, c)")
      case (Inl res)
      from find_place_found[OF t Inl] Suc.prems(3)
      have "admit_to env pm mi mnt minfo src (g, tree, c) = Inl (r, g', tree', c')"
        using Inl by simp
      then show ?thesis
        using admit_to_keeps[OF m0 Suc.prems(2) t(1), of env pm mi minfo g c r g' tree' c']
        by blast
    next
      case (Inr p)
      obtain fm g1 tree1 c1 where p: "p = (fm, g1, tree1, c1)" by (cases p) auto
      have a: "admit_to env pm mi mnt minfo src (g, tree, c) = Inr (fm, g1, tree1, c1)"
        using Inr p by simp
      from find_place_full[OF t a] Suc.prems(3)
      have f: "find_place env pm mi loop rate fm minfo (g1, tree1, c1) = (r, g', tree', c')"
        by simp
      from admit_to_keeps[OF m0 Suc.prems(2) t(1), of env pm mi minfo g c _ g1 tree1 c1 fm] a
      have k: "\<exists>s'. tree1 m0 = Some s' \<and> y \<in> set (clients s')" and i: "con_id c1 = con_id c"
        by blast+
      from Suc.IH[OF k Suc.prems(2) f] i show ?thesis by simp
    qed
  qed
qed

lemma attach_keeps:
  assumes m0: "tree m0 = Some s0" "y \<in> set (clients s0)" and ne: "con_id y \<noteq> con_id c"
    and res: "attach_listener env (r, g, tree, c) = Inr (r', dp, g', tree', c')"
  shows "\<exists>s'. tree' m0 = Some s' \<and> y \<in> set (clients s')"
proof (cases "\<exists>m. r = On_source m")
  case False
  then have "tree' = tree"
    using res by (cases r) (simp_all add: attach_listener_def)
  then show ?thesis using m0 by simp
next
  case True
  then obtain m where r: "r = On_source m" by blast
  from res r obtain src a b where
    l: "tree m = Some src" "refbuf c = Some a" "mem g a = Some b"
    by (auto simp: attach_listener_def split: option.splits)
  let ?g = "g\<lparr>mem := (mem g)(a \<mapsto> b\<lparr>rb_len := PER_CLIENT_REFBUF_SIZE env\<rparr>)\<rparr>"
  from setup_listener_result[of "a_worker env" ?g src "c\<lparr>con_sent_bytes := 0\<rparr>"]
  obtain g1 s1 c1 where
    su: "source_setup_listener (a_worker env) (?g, src, c\<lparr>con_sent_bytes := 0\<rparr>) = (g1, s1, c1)"
    and s1: "clients s1 = insert_client c1 (clients src)"
    and c1: "con_id c1 = con_id c"
    by auto
  let ?c2 = "c1\<lparr>cl_flags := cl_flags c1 \<union> {CLIENT_ACTIVE}\<rparr>"
  have t': "tree' = tree(m \<mapsto> s1) \<or> tree' = tree(m \<mapsto> store_client ?c2 s1)"
    using res r l su by (auto simp: attach_listener_def Let_def split: if_splits)
  show ?thesis
  proof (cases "m = m0")
    case False
    then show ?thesis using t' m0 by auto
  next
    case True
    then have "src = s0" using l(1) m0(1) by simp
    then have y1: "y \<in> set (clients s1)" using s1 m0(2) by (simp add: insert_client_keeps)
    have "con_id y \<noteq> con_id ?c2" using ne c1 by simp
    from store_client_keeps[OF y1 this] y1 t' True show ?thesis by auto
  qed
qed


text \<open>
  Claim C9, as amended.  A listener with a user name, not a slave, asks for a mount
  whose source is available and below the bandwidth limit of the server; the \<open>auth\<close> of
  the mount forbids duplicate users, and \<open>x\<close> is the first listener of the source with
  the same user name.  Without \<open>drop_existing_listener\<close> the new listener is answered
  with 403 "Account already in use" and the sources are unchanged.  With it, \<open>x\<close> gets
  \<open>connection.error = 1\<close> and the new listener goes on to the limits of the mount
  (\<open>has_room\<close>), which still count \<open>x\<close>.  When they leave room, the new listener is
  attached to the source: \<open>listeners\<close> is one more and the listener is in the tree of
  the source.  When they do not, the new listener is answered with 403 "max listeners
  reached", unless the mount has \<open>fallback_when_full\<close> and a fallback mount: then the
  search for a place goes on at the fallback mount, with nine rounds left.  Whatever the
  outcome, \<open>x\<close> is in the tree of the source with \<open>connection.error = 1\<close> when
  \<open>source_add_listener\<close> returns.
\<close>

theorem duplicate_login_policy:
  assumes src: "tree mnt = Some src" "source_available src"
    and cl: "username c = Some u" "CLIENT_IS_SLAVE \<notin> cl_flags c"
    and bw: "\<not> (has_format env mnt \<and> a_max_bandwidth env \<noteq> 0
                \<and> a_global_rate env + stream_rate env mnt > a_max_bandwidth env)"
    and mi: "auth mi = Some a" "\<not> allow_duplicate_users a"
    and dup: "clients src = pre @ x # post" "username x = Some u"
      "\<forall>y\<in>set pre. username y \<noteq> Some u"
  shows "(\<not> drop_existing_listener a \<longrightarrow>
            (\<exists>g'. source_add_listener env mnt (Some mi) (g, tree, c) =
                     Inr (Send_403 ''Account already in use'', False, g', tree, c) \<and>
                   mem g' = mem g)) \<and>
         (drop_existing_listener a \<longrightarrow>
            (has_room env mi mnt src \<longrightarrow>
             refbuf c = Some ra \<longrightarrow> mem g ra = Some rb \<longrightarrow>
             (\<forall>y\<in>set (clients src). con_id y \<noteq> con_id c) \<longrightarrow>
             (\<exists>dp g' tree' c' src'.
                source_add_listener env mnt (Some mi) (g, tree, c) =
                  Inr (On_source mnt, dp, g', tree', c') \<and>
                tree' mnt = Some src' \<and> x\<lparr>con_error := 1\<rparr> \<in> set (clients src') \<and>
                c' \<in> set (clients src') \<and> con_id c' = con_id c \<and>
                listeners src' = (listeners src + 1) mod 2 ^ 64)) \<and>
            (\<not> has_room env mi mnt src \<longrightarrow>
             \<not> (fallback_when_full mi \<and> fallback_mount mi \<noteq> None) \<longrightarrow>
             (\<exists>g' c'.
                source_add_listener env mnt (Some mi) (g, tree, c) =
                  Inr (Send_403redirect mnt ''max listeners reached'', False, g',
                       tree(mnt \<mapsto> src\<lparr>clients := pre @ x\<lparr>con_error := 1\<rparr> # post\<rparr>), c') \<and>
                mem g' = mem g \<and> con_id c' = con_id c)) \<and>
            (\<not> has_room env mi mnt src \<longrightarrow>
             fallback_when_full mi \<longrightarrow> fallback_mount mi = Some fm \<longrightarrow>
             (\<exists>g' c'.
                source_add_listener env mnt (Some mi) (g, tree, c) =
                  attach_listener env
                    (find_place env mnt (Some mi) 9 0 fm (Some mi)
                       (g', tree(mnt \<mapsto> src\<lparr>clients := pre @ x\<lparr>con_error := 1\<rparr> # post\<rparr>), c')) \<and>
                mem g' = mem g \<and> con_id c' = con_id c \<and> refbuf c' = refbuf c)) \<and>
            (con_id x \<noteq> con_id c \<longrightarrow>
             (\<forall>r dp g' tree' c'.
                source_add_listener env mnt (Some mi) (g, tree, c) = Inr (r, dp, g', tree', c') \<longrightarrow>
                (\<exists>src'. tree' mnt = Some src' \<and> x\<lparr>con_error := 1\<rparr> \<in> set (clients src')))))"
proof (intro conjI impI)
  assume nd: "\<not> drop_existing_listener a"
  have t: "tree(mnt \<mapsto> src) = tree" using src(1) by (rule map_upd_triv)
  obtain g' where a: "admit_to env mnt (Some mi) mnt (Some mi) src (g, tree, c) =
      Inl (Send_403 ''Account already in use'', g', tree, c)" and m: "mem g' = mem g"
    using admit_to_refuse[OF cl bw mi nd dup, of mnt "Some mi" g tree] t by auto
  have "find_place env mnt (Some mi) (Suc 9) 0 mnt (Some mi) (g, tree, c) =
      (Send_403 ''Account already in use'', g', tree, c)"
    by (rule find_place_found[OF src a])
  then have "source_add_listener env mnt (Some mi) (g, tree, c) =
      Inr (Send_403 ''Account already in use'', False, g', tree, c)"
    by (simp only: source_add_listener_def find_place_10) (simp add: attach_listener_def)
  with m show "\<exists>g'. source_add_listener env mnt (Some mi) (g, tree, c) =
      Inr (Send_403 ''Account already in use'', False, g', tree, c) \<and> mem g' = mem g"
    by blast
next
  assume d: "drop_existing_listener a" and room: "has_room env mi mnt src"
    and rb: "refbuf c = Some ra" "mem g ra = Some rb"
    and ids: "\<forall>y\<in>set (clients src). con_id y \<noteq> con_id c"
  define src1 where "src1 = src\<lparr>clients := pre @ x\<lparr>con_error := 1\<rparr> # post\<rparr>"
  obtain g0 c0 where a: "admit_to env mnt (Some mi) mnt (Some mi) src (g, tree, c) =
      Inl (On_source mnt, g0, tree(mnt \<mapsto> src1), c0)"
    and c0: "con_id c0 = con_id c" "refbuf c0 = refbuf c" and g0: "mem g0 = mem g"
    using admit_to_drop[OF cl bw mi d dup, where pm = mnt and minfo = "Some mi" and g = g and tree = tree] room
    unfolding src1_def by auto
  have fp: "find_place env mnt (Some mi) (Suc 9) 0 mnt (Some mi) (g, tree, c) =
      (On_source mnt, g0, tree(mnt \<mapsto> src1), c0)"
    by (rule find_place_found[OF src a])
  obtain g1 s1 c1 where
    su: "source_setup_listener (a_worker env)
           (g0\<lparr>mem := (mem g0)(ra \<mapsto> rb\<lparr>rb_len := PER_CLIENT_REFBUF_SIZE env\<rparr>)\<rparr>, src1,
            c0\<lparr>con_sent_bytes := 0\<rparr>) = (g1, s1, c1)"
    and s1: "clients s1 = insert_client c1 (clients src1)"
      "listeners s1 = (listeners src1 + 1) mod 2 ^ 64"
    and c1: "con_id c1 = con_id (c0\<lparr>con_sent_bytes := 0\<rparr>)"
    using setup_listener_result by blast
  have idc: "con_id c1 = con_id c" using c1 c0 by simp
  have ids1: "\<forall>y\<in>set (clients src1). con_id y \<noteq> con_id c1"
    using ids dup(1) idc by (auto simp: src1_def)
  have set1: "set (clients s1) = insert c1 (set (clients src1))"
    using s1(1) set_insert_client[OF ids1] by simp
  have x1: "x\<lparr>con_error := 1\<rparr> \<in> set (clients s1)" using set1 by (simp add: src1_def)
  have xid: "con_id (x\<lparr>con_error := 1\<rparr>) \<noteq> con_id c1"
    using ids1 by (simp add: src1_def)
  have in1: "c1 \<in> set (clients s1)" using set1 by simp
  have ls: "listeners s1 = (listeners src + 1) mod 2 ^ 64" using s1(2) by (simp add: src1_def)
  let ?c2 = "c1\<lparr>cl_flags := cl_flags c1 \<union> {CLIENT_ACTIVE}\<rparr>"
  have res: "source_add_listener env mnt (Some mi) (g, tree, c) =
      (if CLIENT_ACTIVE \<in> cl_flags c1 \<and> SOURCE_RUNNING \<in> flags s1
       then Inr (On_source mnt, True, g1, (tree(mnt \<mapsto> src1))(mnt \<mapsto> s1), c1)
       else Inr (On_source mnt, False, g1, (tree(mnt \<mapsto> src1))(mnt \<mapsto> store_client ?c2 s1), ?c2))"
    using rb c0 g0 su
    by (simp only: source_add_listener_def find_place_10 fp) (simp add: attach_listener_def Let_def)
  show "\<exists>dp g' tree' c' src'.
               source_add_listener env mnt (Some mi) (g, tree, c) =
                 Inr (On_source mnt, dp, g', tree', c') \<and>
               tree' mnt = Some src' \<and> x\<lparr>con_error := 1\<rparr> \<in> set (clients src') \<and>
               c' \<in> set (clients src') \<and> con_id c' = con_id c \<and>
               listeners src' = (listeners src + 1) mod 2 ^ 64"
  proof (cases "CLIENT_ACTIVE \<in> cl_flags c1 \<and> SOURCE_RUNNING \<in> flags s1")
    case True
    then have "source_add_listener env mnt (Some mi) (g, tree, c) =
        Inr (On_source mnt, True, g1, (tree(mnt \<mapsto> src1))(mnt \<mapsto> s1), c1)"
      using res by simp
    moreover have "((tree(mnt \<mapsto> src1))(mnt \<mapsto> s1)) mnt = Some s1" by simp
    ultimately show ?thesis using x1 in1 idc ls by blast
  next
    case False
    then have "source_add_listener env mnt (Some mi) (g, tree, c) =
        Inr (On_source mnt, False, g1, (tree(mnt \<mapsto> src1))(mnt \<mapsto> store_client ?c2 s1), ?c2)"
      using res by simp
    moreover have "((tree(mnt \<mapsto> src1))(mnt \<mapsto> store_client ?c2 s1)) mnt
        = Some (store_client ?c2 s1)" by simp
    moreover have "x\<lparr>con_error := 1\<rparr> \<in> set (clients (store_client ?c2 s1))"
      using store_client_keeps[OF x1, of ?c2] xid by simp
    moreover have "?c2 \<in> set (clients (store_client ?c2 s1))"
      using store_client_enters[OF in1, of ?c2] by simp
    moreover have "con_id ?c2 = con_id c" using idc by simp
    moreover have "listeners (store_client ?c2 s1) = (listeners src + 1) mod 2 ^ 64"
      using ls by (simp add: listeners_store_client)
    ultimately show ?thesis by blast
  qed
next
  assume d: "drop_existing_listener a" and full: "\<not> has_room env mi mnt src"
    and nf: "\<not> (fallback_when_full mi \<and> fallback_mount mi \<noteq> None)"
  let ?src1 = "src\<lparr>clients := pre @ x\<lparr>con_error := 1\<rparr> # post\<rparr>"
  have none: "(if fallback_when_full mi then fallback_mount mi else None) = None"
    using nf by auto
  obtain g0 c0 where a: "admit_to env mnt (Some mi) mnt (Some mi) src (g, tree, c) =
      Inl (Send_403redirect mnt ''max listeners reached'', g0, tree(mnt \<mapsto> ?src1), c0)"
    and c0: "con_id c0 = con_id c" and g0: "mem g0 = mem g"
    using admit_to_drop[OF cl bw mi d dup, where pm = mnt and minfo = "Some mi" and g = g and tree = tree] full none by auto
  have "find_place env mnt (Some mi) (Suc 9) 0 mnt (Some mi) (g, tree, c) =
      (Send_403redirect mnt ''max listeners reached'', g0, tree(mnt \<mapsto> ?src1), c0)"
    by (rule find_place_found[OF src a])
  then have "source_add_listener env mnt (Some mi) (g, tree, c) =
      Inr (Send_403redirect mnt ''max listeners reached'', False, g0, tree(mnt \<mapsto> ?src1), c0)"
    by (simp only: source_add_listener_def find_place_10) (simp add: attach_listener_def)
  with c0 g0 show "\<exists>g' c'.
                source_add_listener env mnt (Some mi) (g, tree, c) =
                  Inr (Send_403redirect mnt ''max listeners reached'', False, g',
                       tree(mnt \<mapsto> ?src1), c') \<and>
                mem g' = mem g \<and> con_id c' = con_id c"
    by blast
next
  assume d: "drop_existing_listener a" and full: "\<not> has_room env mi mnt src"
    and fb: "fallback_when_full mi" "fallback_mount mi = Some fm"
  let ?src1 = "src\<lparr>clients := pre @ x\<lparr>con_error := 1\<rparr> # post\<rparr>"
  obtain g0 c0 where a: "admit_to env mnt (Some mi) mnt (Some mi) src (g, tree, c) =
      Inr (fm, g0, tree(mnt \<mapsto> ?src1), c0)"
    and c0: "con_id c0 = con_id c" "refbuf c0 = refbuf c" and g0: "mem g0 = mem g"
    using admit_to_drop[OF cl bw mi d dup, where pm = mnt and minfo = "Some mi" and g = g and tree = tree] full fb by auto
  have "find_place env mnt (Some mi) (Suc 9) 0 mnt (Some mi) (g, tree, c) =
      find_place env mnt (Some mi) 9 0 fm (Some mi) (g0, tree(mnt \<mapsto> ?src1), c0)"
    by (rule find_place_full[OF src a])
  then have "source_add_listener env mnt (Some mi) (g, tree, c) =
      attach_listener env
        (find_place env mnt (Some mi) 9 0 fm (Some mi) (g0, tree(mnt \<mapsto> ?src1), c0))"
    by (simp only: source_add_listener_def find_place_10)
  with c0 g0 show "\<exists>g' c'.
                source_add_listener env mnt (Some mi) (g, tree, c) =
                  attach_listener env
                    (find_place env mnt (Some mi) 9 0 fm (Some mi)
                       (g', tree(mnt \<mapsto> ?src1), c')) \<and>
                mem g' = mem g \<and> con_id c' = con_id c \<and> refbuf c' = refbuf c"
    by blast
next
  assume d: "drop_existing_listener a" and ne: "con_id x \<noteq> con_id c"
  let ?x = "x\<lparr>con_error := 1\<rparr>"
  let ?src1 = "src\<lparr>clients := pre @ ?x # post\<rparr>"
  let ?t1 = "tree(mnt \<mapsto> ?src1)"
  have mk: "con_error ?x = 1" by simp
  have in1: "?t1 mnt = Some ?src1" "?x \<in> set (clients ?src1)" by simp_all
  have ex1: "\<exists>s0. ?t1 mnt = Some s0 \<and> ?x \<in> set (clients s0)" by simp
  from admit_to_drop[OF cl bw mi d dup, where pm = mnt and minfo = "Some mi" and g = g and tree = tree]
  obtain g0 c0 where c0: "con_id c0 = con_id c"
    and a0: "admit_to env mnt (Some mi) mnt (Some mi) src (g, tree, c) =
             (if has_room env mi mnt src then Inl (On_source mnt, g0, ?t1, c0)
              else case (case Some mi of
                           None \<Rightarrow> None
                         | Some m' \<Rightarrow> if fallback_when_full m' then fallback_mount m' else None)
                   of Some fm \<Rightarrow> Inr (fm, g0, ?t1, c0)
                    | None \<Rightarrow> Inl (Send_403redirect mnt ''max listeners reached'', g0, ?t1, c0))"
    by blast
  have a: "admit_to env mnt (Some mi) mnt (Some mi) src (g, tree, c) =
             (if has_room env mi mnt src then Inl (On_source mnt, g0, ?t1, c0)
              else case (if fallback_when_full mi then fallback_mount mi else None)
                   of Some fm \<Rightarrow> Inr (fm, g0, ?t1, c0)
                    | None \<Rightarrow> Inl (Send_403redirect mnt ''max listeners reached'', g0, ?t1, c0))"
    using a0 by simp
  have "\<exists>r0 g1 t1 c1. find_place env mnt (Some mi) (Suc 9) 0 mnt (Some mi) (g, tree, c) =
          (r0, g1, t1, c1) \<and> (\<exists>s'. t1 mnt = Some s' \<and> ?x \<in> set (clients s')) \<and>
          con_id c1 = con_id c"
  proof (cases "has_room env mi mnt src")
    case True
    then have "find_place env mnt (Some mi) (Suc 9) 0 mnt (Some mi) (g, tree, c) =
        (On_source mnt, g0, ?t1, c0)"
      using a by (intro find_place_found[where tree = tree and mnt = mnt, OF src]) simp
    then show ?thesis using c0 in1 by simp
  next
    case full: False
    show ?thesis
    proof (cases "if fallback_when_full mi then fallback_mount mi else None")
      case None
      then have "find_place env mnt (Some mi) (Suc 9) 0 mnt (Some mi) (g, tree, c) =
          (Send_403redirect mnt ''max listeners reached'', g0, ?t1, c0)"
        using a full by (intro find_place_found[where tree = tree and mnt = mnt, OF src]) simp
      then show ?thesis using c0 in1 by simp
    next
      case (Some fm')
      then have f: "find_place env mnt (Some mi) (Suc 9) 0 mnt (Some mi) (g, tree, c) =
          find_place env mnt (Some mi) 9 0 fm' (Some mi) (g0, ?t1, c0)"
        using a full by (intro find_place_full[where tree = tree and mnt = mnt, OF src]) simp
      obtain r0 g1 t1 c1 where
        r: "find_place env mnt (Some mi) 9 0 fm' (Some mi) (g0, ?t1, c0) = (r0, g1, t1, c1)"
        by (cases "find_place env mnt (Some mi) 9 0 fm' (Some mi) (g0, ?t1, c0)") auto
      from find_place_keeps[OF ex1 mk r] c0 f r show ?thesis by simp
    qed
  qed
  then obtain r0 g1 t1 c1 s1 where
    fp: "find_place env mnt (Some mi) (Suc 9) 0 mnt (Some mi) (g, tree, c) = (r0, g1, t1, c1)"
    and k: "t1 mnt = Some s1" "?x \<in> set (clients s1)" and i: "con_id c1 = con_id c"
    by blast
  have sal: "source_add_listener env mnt (Some mi) (g, tree, c) =
      attach_listener env (r0, g1, t1, c1)"
    using fp by (simp only: source_add_listener_def find_place_10)
  have ne1: "con_id ?x \<noteq> con_id c1" using ne i by simp
  show "\<forall>r dp g' tree' c'.
          source_add_listener env mnt (Some mi) (g, tree, c) = Inr (r, dp, g', tree', c') \<longrightarrow>
          (\<exists>src'. tree' mnt = Some src' \<and> ?x \<in> set (clients src'))"
    using attach_keeps[where tree = t1 and ?m0.0 = mnt, OF k ne1] sal by simp
qed


lemmas find_place_numeral =
  find_place.simps(2)[where loop = "pred_numeral k", folded numeral_eq_Suc] for k

text \<open>
  Claim C9 says that with \<open>drop_existing_listener\<close> the earlier login is marked and the
  new listener is admitted.  The duplicate check of line 1957 only lets the new
  listener pass to the limits of the mount (lines 1970 to 2001).  Below, the mount
  admits one listener and alice is attached; she logs in again: the earlier login gets
  \<open>connection.error = 1\<close>, it is still counted in \<open>listeners\<close>, and the new login is
  answered with 403 "max listeners reached".
\<close>

theorem duplicate_login_full_counterexample:
  "source_add_listener add_now ''/live'' (Some strict_mount) (response_buffers, live_tree, alice 9) =
     Inr (Send_403redirect ''/live'' ''max listeners reached'', False,
          response_buffers
            \<lparr>trace := [Log INFO ''Found %s on %s, dropping previous account'',
                       Log INFO ''max on %s is %d (cur %lu)'',
                       Log INFO ''max listener count reached on %s'']\<rparr>,
          [''/live'' \<mapsto> live_source\<lparr>clients := [(alice 7)\<lparr>con_error := 1\<rparr>]\<rparr>],
          alice 9)"
  by (simp add: source_add_listener_def attach_listener_def find_place_numeral admit_to_def
      within_limits_def check_duplicate_logins_def
      source_find_mount_raw_def source_available_def logmsg_def response_buffers_def
      add_now_def strict_mount_def plain_mount_def live_tree_def live_source_def alice_def
      new_source_def zero_client_def Let_def)

lemma spill_run:
  "\<exists>g' tree' c'.
     source_add_listener add_now ''/live'' (Some spill_mount) (response_buffers, two_tree, alice 9) =
       Inr (On_source ''/b'', False, g', tree', c')"
  by (simp add: source_add_listener_def attach_listener_def find_place_numeral admit_to_def
      within_limits_def check_duplicate_logins_def source_setup_listener_def store_client_def
      source_find_mount_raw_def source_available_def logmsg_def response_buffers_def
      add_now_def spill_mount_def strict_mount_def plain_mount_def two_tree_def running_b_def
      live_tree_def live_source_def alice_def
      new_source_def zero_client_def Let_def)


text \<open>
  Alice logs in again on four mounts: one that refuses the second login, one with room
  for two listeners, one that is full, and one that is full and falls back to \<open>/b\<close>.
\<close>

theorem duplicate_login_policy_witness:
  "live_tree ''/live'' = Some live_source \<and> source_available live_source \<and>
   username (alice 9) = Some ''alice'' \<and> CLIENT_IS_SLAVE \<notin> cl_flags (alice 9) \<and>
   clients live_source = [] @ alice 7 # [] \<and> username (alice 7) = Some ''alice'' \<and>
   refbuf (alice 9) = Some 9 \<and> mem response_buffers 9 = Some (block 4096 {} None 1) \<and>
   con_id (alice 7) \<noteq> con_id (alice 9) \<and>
   (\<exists>g'. source_add_listener add_now ''/live''
            (Some (strict_mount\<lparr>auth := Some \<lparr>allow_duplicate_users = False,
                                                drop_existing_listener = False\<rparr>\<rparr>))
            (response_buffers, live_tree, alice 9) =
          Inr (Send_403 ''Account already in use'', False, g', live_tree, alice 9)) \<and>
   has_room add_now (strict_mount\<lparr>max_listeners := 2\<rparr>) ''/live'' live_source \<and>
   (\<exists>dp g' tree' c' src'.
      source_add_listener add_now ''/live'' (Some (strict_mount\<lparr>max_listeners := 2\<rparr>))
        (response_buffers, live_tree, alice 9) = Inr (On_source ''/live'', dp, g', tree', c') \<and>
      tree' ''/live'' = Some src' \<and> (alice 7)\<lparr>con_error := 1\<rparr> \<in> set (clients src') \<and>
      c' \<in> set (clients src') \<and> con_id c' = 9 \<and> listeners src' = 2) \<and>
   \<not> has_room add_now strict_mount ''/live'' live_source \<and>
   (\<exists>g' c'.
      source_add_listener add_now ''/live'' (Some strict_mount)
        (response_buffers, live_tree, alice 9) =
        Inr (Send_403redirect ''/live'' ''max listeners reached'', False, g',
             live_tree(''/live'' \<mapsto> live_source\<lparr>clients := [(alice 7)\<lparr>con_error := 1\<rparr>]\<rparr>), c') \<and>
      con_id c' = 9) \<and>
   \<not> has_room add_now spill_mount ''/live'' live_source \<and>
   fallback_when_full spill_mount \<and> fallback_mount spill_mount = Some ''/b'' \<and>
   (\<exists>g' c'.
      source_add_listener add_now ''/live'' (Some spill_mount)
        (response_buffers, two_tree, alice 9) =
        attach_listener add_now
          (find_place add_now ''/live'' (Some spill_mount) 9 0 ''/b'' (Some spill_mount)
             (g', two_tree(''/live'' \<mapsto> live_source\<lparr>clients := [(alice 7)\<lparr>con_error := 1\<rparr>]\<rparr>),
              c')) \<and>
      con_id c' = 9) \<and>
   (\<exists>g' tree' c' src'.
      source_add_listener add_now ''/live'' (Some spill_mount)
        (response_buffers, two_tree, alice 9) = Inr (On_source ''/b'', False, g', tree', c') \<and>
      tree' ''/live'' = Some src' \<and> (alice 7)\<lparr>con_error := 1\<rparr> \<in> set (clients src'))"
proof -
  let ?off = "\<lparr>allow_duplicate_users = False, drop_existing_listener = False\<rparr>"
  let ?on = "\<lparr>allow_duplicate_users = False, drop_existing_listener = True\<rparr>"
  let ?two = "strict_mount\<lparr>max_listeners := 2\<rparr>"
  let ?rb = "block 4096 {} None 1"
  have src: "live_tree ''/live'' = Some live_source" "source_available live_source"
    by (simp_all add: live_tree_def live_source_def new_source_def source_available_def)
  have src2: "two_tree ''/live'' = Some live_source"
    by (simp add: two_tree_def live_tree_def)
  have cl: "username (alice 9) = Some ''alice''" "CLIENT_IS_SLAVE \<notin> cl_flags (alice 9)"
    by (simp_all add: alice_def zero_client_def)
  have bw: "\<not> (has_format add_now ''/live'' \<and> a_max_bandwidth add_now \<noteq> 0
      \<and> a_global_rate add_now + stream_rate add_now ''/live'' > a_max_bandwidth add_now)"
    by (simp add: add_now_def)
  have dup: "clients live_source = [] @ alice 7 # []" "username (alice 7) = Some ''alice''"
      "\<forall>y\<in>set ([] :: client_t list). username y \<noteq> Some ''alice''"
    by (simp_all add: live_source_def alice_def)
  have off: "auth (strict_mount\<lparr>auth := Some ?off\<rparr>) = Some ?off" "\<not> allow_duplicate_users ?off"
    by simp_all
  have on: "auth ?two = Some ?on" "auth strict_mount = Some ?on" "auth spill_mount = Some ?on"
      "\<not> allow_duplicate_users ?on" "drop_existing_listener ?on"
    by (simp_all add: strict_mount_def spill_mount_def)
  have rb: "refbuf (alice 9) = Some 9" "mem response_buffers 9 = Some ?rb"
    by (simp_all add: alice_def response_buffers_def)
  have ids: "\<forall>y\<in>set (clients live_source). con_id y \<noteq> con_id (alice 9)"
      "con_id (alice 7) \<noteq> con_id (alice 9)"
    by (simp_all add: live_source_def alice_def)
  have room: "has_room add_now ?two ''/live'' live_source"
      "\<not> has_room add_now strict_mount ''/live'' live_source"
      "\<not> has_room add_now spill_mount ''/live'' live_source"
    by (simp_all add: has_room_def add_now_def spill_mount_def strict_mount_def plain_mount_def
        live_source_def new_source_def)
  have fb: "\<not> (fallback_when_full strict_mount \<and> fallback_mount strict_mount \<noteq> None)"
      "fallback_when_full spill_mount" "fallback_mount spill_mount = Some ''/b''"
    by (simp_all add: spill_mount_def strict_mount_def plain_mount_def)
  have n9: "con_id (alice 9) = 9" "(listeners live_source + 1) mod 2 ^ 64 = 2"
    by (simp_all add: alice_def live_source_def)
  have A: "\<exists>g'. source_add_listener add_now ''/live'' (Some (strict_mount\<lparr>auth := Some ?off\<rparr>))
            (response_buffers, live_tree, alice 9) =
          Inr (Send_403 ''Account already in use'', False, g', live_tree, alice 9)"
    using duplicate_login_policy[where tree = live_tree and mnt = "''/live''" and env = add_now
         and g = response_buffers, OF src cl bw off dup]
    by auto
  have B: "\<exists>dp g' tree' c' src'.
      source_add_listener add_now ''/live'' (Some ?two)
        (response_buffers, live_tree, alice 9) = Inr (On_source ''/live'', dp, g', tree', c') \<and>
      tree' ''/live'' = Some src' \<and> (alice 7)\<lparr>con_error := 1\<rparr> \<in> set (clients src') \<and>
      c' \<in> set (clients src') \<and> con_id c' = 9 \<and> listeners src' = 2"
    using duplicate_login_policy[where tree = live_tree and mnt = "''/live''" and env = add_now
         and g = response_buffers and ra = 9 and rb = ?rb,
         OF src cl bw on(1) on(4) dup] on(5) room(1) rb ids(1) n9
    by simp
  have C: "\<exists>g' c'.
      source_add_listener add_now ''/live'' (Some strict_mount)
        (response_buffers, live_tree, alice 9) =
        Inr (Send_403redirect ''/live'' ''max listeners reached'', False, g',
             live_tree(''/live'' \<mapsto> live_source\<lparr>clients := [(alice 7)\<lparr>con_error := 1\<rparr>]\<rparr>), c') \<and>
      con_id c' = 9"
    using duplicate_login_policy[where tree = live_tree and mnt = "''/live''" and env = add_now
         and g = response_buffers, OF src cl bw on(2) on(4) dup] on(5) room(2) fb(1) n9
    by auto
  from duplicate_login_policy[where tree = two_tree and mnt = "''/live''" and env = add_now
         and g = response_buffers and fm = "''/b''", OF src2 src(2) cl bw on(3) on(4) dup]
  have D: "\<exists>g' c'.
      source_add_listener add_now ''/live'' (Some spill_mount)
        (response_buffers, two_tree, alice 9) =
        attach_listener add_now
          (find_place add_now ''/live'' (Some spill_mount) 9 0 ''/b'' (Some spill_mount)
             (g', two_tree(''/live'' \<mapsto> live_source\<lparr>clients := [(alice 7)\<lparr>con_error := 1\<rparr>]\<rparr>),
              c')) \<and>
      con_id c' = 9"
    and E: "\<forall>r dp g' tree' c'.
      source_add_listener add_now ''/live'' (Some spill_mount)
        (response_buffers, two_tree, alice 9) = Inr (r, dp, g', tree', c') \<longrightarrow>
      (\<exists>src'. tree' ''/live'' = Some src' \<and> (alice 7)\<lparr>con_error := 1\<rparr> \<in> set (clients src'))"
    using on(5) room(3) fb(2) fb(3) ids(2) n9 by auto
  from spill_run E
  have F: "\<exists>g' tree' c' src'.
      source_add_listener add_now ''/live'' (Some spill_mount)
        (response_buffers, two_tree, alice 9) = Inr (On_source ''/b'', False, g', tree', c') \<and>
      tree' ''/live'' = Some src' \<and> (alice 7)\<lparr>con_error := 1\<rparr> \<in> set (clients src')"
    by blast
  show ?thesis
    using src cl dup(1) dup(2) rb ids(2) A room(1) B room(2) C room(3) fb(2) fb(3) D F
    by (intro conjI)
qed


section \<open>Installing the fallback record\<close>

text \<open>
  Claim C10.  \<open>source_set_fallback\<close> called with a nil destination mount, or on a source
  without listeners, leaves the source as it is: no fallback record is installed and no
  flag, counter or listener changes (the call only writes a log line).  Whenever the
  source does change, the destination was not nil and a listener was attached; in that
  case the record holds the destination mount, \<open>FS_FALLBACK\<close> and the format type, and
  the fallback record is all that changes.
\<close>

theorem source_set_fallback_frame:
  "(dest_mount = None \<or> listeners s = 0 \<longrightarrow>
      snd (source_set_fallback now incoming (g, s) dest_mount) = s) \<and>
   (snd (source_set_fallback now incoming (g, s) dest_mount) \<noteq> s \<longrightarrow>
      dest_mount \<noteq> None \<and> listeners s \<noteq> 0) \<and>
   (dest_mount \<noteq> None \<and> listeners s \<noteq> 0 \<longrightarrow>
      fb_mount (fallback (snd (source_set_fallback now incoming (g, s) dest_mount))) = dest_mount \<and>
      fb_flags (fallback (snd (source_set_fallback now incoming (g, s) dest_mount))) = {FS_FALLBACK} \<and>
      fb_type (fallback (snd (source_set_fallback now incoming (g, s) dest_mount))) = format_type s) \<and>
   (snd (source_set_fallback now incoming (g, s) dest_mount))\<lparr>fallback := fallback s\<rparr> = s"
  by (cases dest_mount) (auto simp: source_set_fallback_def Let_def)

theorem source_set_fallback_frame_witness:
  "snd (source_set_fallback 3 16000 (empty_global, syncing_source) None) = syncing_source \<and>
   snd (source_set_fallback 3 16000 (empty_global, new_source ''/live'') (Some ''/b'')) =
     new_source ''/live'' \<and>
   fb_mount (fallback (snd (source_set_fallback 3 16000 (empty_global, syncing_source)
      (Some ''/b'')))) = Some ''/b''"
proof -
  have l: "listeners syncing_source \<noteq> 0" "listeners (new_source ''/live'') = 0"
    by (simp_all add: syncing_source_def new_source_def)
  show ?thesis
    using source_set_fallback_frame[of None syncing_source 3 16000 empty_global]
      source_set_fallback_frame[of "Some ''/b''" "new_source ''/live''" 3 16000 empty_global]
      source_set_fallback_frame[of "Some ''/b''" syncing_source 3 16000 empty_global] l
    by simp
qed


end
